theory Spec2Isabelle
  imports Main "HOL-Library.Product_Lexorder" "HOL-Library.Multiset"
begin

section \<open>The event manager of circuits (circuits/core/manager.py)\<close>

text \<open>
  The manager is an object graph of mutable Python objects: managers (components),
  events, the \<open>Value\<close> cells of events, handlers, generators and tick callables.
  Objects that are mutated and shared live in stores indexed by their identity; the
  state of the whole system is one record that every operation takes and returns.
  Code the manager calls but does not own (handler bodies, generator bodies, tick
  callables, the iteration order of a Python set, the naming convention of events)
  is a parameter of the model, collected in the record \<open>env\<close>.
\<close>

subsection \<open>Python values\<close>

datatype exc_kind = KeyboardInterrupt | SystemExit | StopIteration | RuntimeError
  | KeyError | AttributeError | OtherException string

text \<open>What a handler returns or a generator yields. An opaque object carries the truth
  value Python would compute for it.\<close>

datatype pyval = PNone | PBool bool | PInt int | PStr string | PTuple "pyval list"
  | PList "pyval list" | PGen nat | PExcType exc_kind | PObject nat bool

fun truthy :: "pyval \<Rightarrow> bool" where
  "truthy PNone = False"
| "truthy (PBool b) = b"
| "truthy (PInt i) = (i \<noteq> 0)"
| "truthy (PStr s) = (s \<noteq> [])"
| "truthy (PTuple xs) = (xs \<noteq> [])"
| "truthy (PList xs) = (xs \<noteq> [])"
| "truthy (PGen g) = True"
| "truthy (PExcType k) = True"
| "truthy (PObject i b) = b"

text \<open>\<open>type(value) is GeneratorType\<close>\<close>

fun is_generator :: "pyval \<Rightarrow> bool" where
  "is_generator (PGen g) = True"
| "is_generator v = False"

fun the_gen :: "pyval \<Rightarrow> nat" where
  "the_gen (PGen g) = g"
| "the_gen v = 0"

text \<open>A raised exception as \<open>sys.exc_info()\<close> and \<open>format_tb\<close> show it.\<close>

record exn =
  etype :: exc_kind
  evalue :: pyval
  etraceback :: "string list"

definition error_triple :: "exn \<Rightarrow> pyval" where
  "error_triple x = PTuple [PExcType (etype x), evalue x, PList (map PStr (etraceback x))]"

text \<open>\<open>except (KeyboardInterrupt, SystemExit): raise\<close>\<close>

definition host_fatal :: "exn \<Rightarrow> bool" where
  "host_fatal x = (etype x = KeyboardInterrupt \<or> etype x = SystemExit)"

datatype 'a outcome = Returned 'a | Raised exn

subsection \<open>Channels, handlers, events, values, tasks\<close>

text \<open>A channel is a string, a manager instance or \<open>None\<close>.\<close>

datatype chan = CNone | CStr string | CMgr nat

fun is_mgr :: "chan \<Rightarrow> bool" where
  "is_mgr (CMgr m) = True"
| "is_mgr c = False"

fun the_mgr :: "chan \<Rightarrow> nat" where
  "the_mgr (CMgr m) = m"
| "the_mgr c = 0"

text \<open>A handler is a callable with the attributes the \<open>handler\<close> decorator sets.
  \<open>h_self\<close> is \<open>__self__\<close> of a bound method (absent on a plain function), \<open>h_func\<close>
  identifies the underlying function; its body is \<open>call\<close> of the environment.\<close>

record handler =
  h_func :: nat
  h_self :: "nat option"
  h_name :: string
  names :: "string list"
  h_channel :: chan
  priority :: int
  h_filter :: bool
  h_event :: bool

text \<open>Arguments of an event: plain values and references to objects.\<close>

datatype arg = AVal pyval | AEvent nat | AValue nat | AHandler handler | AManager nat

text \<open>Modelled from the spec: the \<open>Event\<close> class (circuits/core/events.py) is not among
  the sources. Its fields are those of the event contract: name, channels, payload, the
  \<open>Value\<close> allocated at fire time, the handler being run, the counter of outstanding
  tasks and the opt-in flags. \<open>ev_class\<close> is \<open>event.__class__.__name__\<close>. Events reach
  the queue through \<open>fireEvent\<close> only, which sets \<open>ev_value\<close>.\<close>

record event =
  ev_class :: string
  ev_name :: string
  ev_channels :: "chan list"
  ev_args :: "arg list"
  ev_kwargs :: "(string \<times> arg) list"
  ev_value :: nat
  ev_handler :: "handler option"
  waitingHandlers :: int
  success :: bool
  failure :: bool
  alert_done :: bool
  notify :: bool

text \<open>Modelled from the spec: the \<open>Value\<close> class (circuits/core/values.py) is not among
  the sources. A value holds the most recent non-null result, the \<open>errors\<close> and
  \<open>promise\<close> flags, and is informed when final; \<open>informed\<close> counts the calls of
  \<open>inform(True)\<close>. A new value is bound to its event and manager.\<close>

record val =
  v_event :: nat
  v_manager :: nat
  v_notify :: bool
  v_value :: pyval
  errors :: bool
  promise :: bool
  informed :: nat

definition Value :: "nat \<Rightarrow> nat \<Rightarrow> bool \<Rightarrow> val" where
  "Value e m n = \<lparr>v_event = e, v_manager = m, v_notify = n, v_value = PNone,
     errors = False, promise = False, informed = 0\<rparr>"

text \<open>A task is the tuple \<open>(event, generator)\<close> or \<open>(event, generator, parent)\<close>.\<close>

datatype task = Task2 nat nat | Task3 nat nat nat

fun task_event :: "task \<Rightarrow> nat" where
  "task_event (Task2 e g) = e"
| "task_event (Task3 e g p) = e"

subsection \<open>Managers and the state\<close>

text \<open>The fields of \<open>Manager.__init__\<close>. \<open>channel\<close> is the optional attribute a component
  adds (\<open>getattr(self, "channel", ...)\<close>), \<open>attrs\<close> the attributes \<open>addHandler\<close> sets, and
  \<open>own_ticks\<close> the members \<open>getTicks\<close> finds on the object by introspection.\<close>

record manager =
  tasks :: "task set"
  ticks :: "nat set"
  cache :: "(string \<times> chan list) \<rightharpoonup> handler list"
  queue :: "(nat \<times> chan list) list"
  globals :: "handler set"
  handlers :: "string \<rightharpoonup> handler set"
  task_handle :: "nat option"
  running :: bool
  root :: nat
  parent :: nat
  components :: "nat set"
  channel :: "chan option"
  attrs :: "string \<rightharpoonup> handler"
  own_ticks :: "nat set"

text \<open>What the host observes of a run, in order.\<close>

datatype action = Called handler | Ticked nat | Stepped nat | Slept

record 'w state =
  mgrs :: "nat \<Rightarrow> manager"
  events :: "nat \<Rightarrow> event"
  vals :: "nat \<Rightarrow> val"
  next_event :: nat
  next_val :: nat
  world :: 'w
  trace :: "action list"

text \<open>Outcome of one \<open>next()\<close> of a generator.\<close>

datatype step = Yielded pyval | Exhausted | Failed exn

text \<open>The code the manager calls: handler bodies (given the event when the handler asked
  for it, and the event's arguments), generators, tick callables, each acting on the
  user's own state \<open>'w\<close>; the order in which a Python set is iterated; the name of an
  event class; and the depth of the Python stack.\<close>

record 'w env =
  call :: "handler \<Rightarrow> nat option \<Rightarrow> arg list \<Rightarrow> (string \<times> arg) list \<Rightarrow> 'w \<Rightarrow> pyval outcome \<times> 'w"
  next_step :: "nat \<Rightarrow> 'w \<Rightarrow> step \<times> 'w"
  call_tick :: "nat \<Rightarrow> 'w \<Rightarrow> unit outcome \<times> 'w"
  iter_handlers :: "handler set \<Rightarrow> handler list"
  iter_tasks :: "task set \<Rightarrow> task list"
  iter_ticks :: "nat set \<Rightarrow> nat list"
  event_name :: "string \<Rightarrow> string"
  recursion_limit :: nat

definition upd_mgr :: "nat \<Rightarrow> (manager \<Rightarrow> manager) \<Rightarrow> 'w state \<Rightarrow> 'w state" where
  "upd_mgr m f s = s\<lparr>mgrs := (mgrs s)(m := f (mgrs s m))\<rparr>"

definition upd_event :: "nat \<Rightarrow> (event \<Rightarrow> event) \<Rightarrow> 'w state \<Rightarrow> 'w state" where
  "upd_event e f s = s\<lparr>events := (events s)(e := f (events s e))\<rparr>"

definition upd_val :: "nat \<Rightarrow> (val \<Rightarrow> val) \<Rightarrow> 'w state \<Rightarrow> 'w state" where
  "upd_val v f s = s\<lparr>vals := (vals s)(v := f (vals s v))\<rparr>"

text \<open>Modelled from the spec: the event classes and their \<open>create\<close> factory are not
  among the sources. A new event of class \<open>c\<close> carries the given arguments; counter and
  flags start cleared, no channels are set.\<close>

definition new_event :: "'w env \<Rightarrow> string \<Rightarrow> arg list \<Rightarrow> event" where
  "new_event env c as = \<lparr>ev_class = c, ev_name = event_name env c, ev_channels = [],
     ev_args = as, ev_kwargs = [], ev_value = 0, ev_handler = None, waitingHandlers = 0,
     success = False, failure = False, alert_done = False, notify = False\<rparr>"

definition create :: "'w env \<Rightarrow> string \<Rightarrow> arg list \<Rightarrow> 'w state \<Rightarrow> nat \<times> 'w state" where
  "create env c as s =
     (next_event s,
      s\<lparr>events := (events s)(next_event s := new_event env c as),
        next_event := Suc (next_event s)\<rparr>)"

subsection \<open>fireEvent\<close>

text \<open>\<open>_fire\<close>: append to the manager's own queue.\<close>

definition fire_raw :: "nat \<Rightarrow> nat \<Rightarrow> chan list \<Rightarrow> 'w state \<Rightarrow> 'w state" where
  "fire_raw m e chs s = upd_mgr m (\<lambda>M. M\<lparr>queue := queue M @ [(e, chs)]\<rparr>) s"

text \<open>The channels \<open>fireEvent\<close> settles on. The tuple \<open>(getattr(self, "channel", "*"),)\<close>
  has one element and is never empty, so the last alternative of the source is dead.\<close>

definition fire_channels :: "'w state \<Rightarrow> nat \<Rightarrow> nat \<Rightarrow> chan list \<Rightarrow> chan list" where
  "fire_channels s m e chs =
     (if chs \<noteq> [] then chs
      else if ev_channels (events s e) \<noteq> [] then ev_channels (events s e)
      else [case channel (mgrs s m) of None \<Rightarrow> CStr ''*'' | Some c \<Rightarrow> c])"

definition fireEvent :: "nat \<Rightarrow> nat \<Rightarrow> chan list \<Rightarrow> 'w state \<Rightarrow> nat \<times> 'w state" where
  "fireEvent m e chs s =
     (let channels = fire_channels s m e chs;
          s1 = upd_event e (\<lambda>ev. ev\<lparr>ev_channels := channels\<rparr>) s;
          v = next_val s1;
          s2 = s1\<lparr>vals := (vals s1)(v := Value e m (notify (events s1 e))),
                  next_val := Suc v\<rparr>;
          s3 = upd_event e (\<lambda>ev. ev\<lparr>ev_value := v\<rparr>) s2;
          s4 = fire_raw (root (mgrs s3 m)) e channels s3
      in (ev_value (events s4 e), s4))"

text \<open>\<open>self.fire(C.create(name, *args), *channels)\<close> and \<open>self.fire(C(*args))\<close>, the
  returned value dropped.\<close>

definition fire_new :: "'w env \<Rightarrow> nat \<Rightarrow> string \<Rightarrow> arg list \<Rightarrow> chan list \<Rightarrow> 'w state \<Rightarrow> 'w state" where
  "fire_new env m c as chs s = (case create env c as s of (e, s1) \<Rightarrow> snd (fireEvent m e chs s1))"

subsection \<open>registerTask, unregisterTask\<close>

definition registerTask :: "nat \<Rightarrow> task \<Rightarrow> 'w state \<Rightarrow> 'w state" where
  "registerTask m g s = upd_mgr m (\<lambda>M. M\<lparr>tasks := insert g (tasks M)\<rparr>) s"

definition unregisterTask :: "nat \<Rightarrow> task \<Rightarrow> 'w state \<Rightarrow> 'w state" where
  "unregisterTask m g s =
     (if g \<in> tasks (mgrs s m) then upd_mgr m (\<lambda>M. M\<lparr>tasks := tasks M - {g}\<rparr>) s else s)"

subsection \<open>_eventDone\<close>

text \<open>\<open>error\<close> is \<open>PNone\<close> for Python's \<open>None\<close>, the default of the parameter.\<close>

definition eventDone :: "'w env \<Rightarrow> nat \<Rightarrow> nat \<Rightarrow> pyval \<Rightarrow> 'w state \<Rightarrow> 'w state" where
  "eventDone env m e error s =
     (if waitingHandlers (events s e) \<noteq> 0 then s
      else
        let s1 = (if alert_done (events s e)
                  then fire_new env m (ev_class (events s e) @ ''Done'')
                         [AEvent e, AValue (ev_value (events s e))] (ev_channels (events s e)) s
                  else s);
            s2 = (if error = PNone \<and> success (events s1 e)
                  then fire_new env m (ev_class (events s1 e) @ ''Success'')
                         [AEvent e, AValue (ev_value (events s1 e))] (ev_channels (events s1 e)) s1
                  else s1)
        in s2)"

subsection \<open>getHandlers\<close>

text \<open>Truth value of a channel: a manager defines \<open>__len__\<close> as the length of its queue.\<close>

fun chan_truthy :: "'w state \<Rightarrow> chan \<Rightarrow> bool" where
  "chan_truthy s CNone = False"
| "chan_truthy s (CStr x) = (x \<noteq> [])"
| "chan_truthy s (CMgr m) = (queue (mgrs s m) \<noteq> [])"

definition handler_channel :: "'w state \<Rightarrow> handler \<Rightarrow> chan" where
  "handler_channel s h =
     (if chan_truthy s (h_channel h) then h_channel h
      else case h_self h of
             Some c \<Rightarrow> (case channel (mgrs s c) of None \<Rightarrow> CNone | Some ch \<Rightarrow> ch)
           | None \<Rightarrow> CNone)"

definition recursion_error :: exn where
  "recursion_error = \<lparr>etype = RuntimeError,
     evalue = PStr ''maximum recursion depth exceeded'', etraceback = []\<rparr>"

definition bucket :: "(string \<rightharpoonup> handler set) \<Rightarrow> string \<Rightarrow> handler set" where
  "bucket hs n = (case hs n of None \<Rightarrow> {} | Some H \<Rightarrow> H)"

text \<open>The first argument is the depth of stack left: the recursion over the components
  ends in Python's \<open>RuntimeError\<close> when the object graph is deeper (or cyclic).\<close>

fun getHandlers :: "nat \<Rightarrow> 'w state \<Rightarrow> nat \<Rightarrow> string \<Rightarrow> chan \<Rightarrow> exn + handler set" where
  "getHandlers 0 s m name ch = Inl recursion_error"
| "getHandlers (Suc d) s m name ch =
     (if is_mgr ch \<and> ch \<noteq> CMgr m then getHandlers d s (the_mgr ch) name ch
      else
        let M = mgrs s m;
            chain = bucket (handlers M) ''*'' \<union> bucket (handlers M) name;
            own = {h \<in> chain. ch = CStr ''*'' \<or> handler_channel s h = CStr ''*''
                     \<or> handler_channel s h = ch \<or> is_mgr ch} \<union> globals M
        in if is_mgr ch then Inr own
           else if \<exists>c \<in> components M. isl (getHandlers d s c name ch)
                then Inl recursion_error
                else Inr (own \<union> (\<Union>c \<in> components M. projr (getHandlers d s c name ch))))"

subsection \<open>_dispatcher\<close>

definition sortkey :: "handler \<Rightarrow> int \<times> bool" where
  "sortkey h = (priority h, h_filter h)"

text \<open>\<open>sorted(xs, key=key, reverse=True)\<close>: descending, and stable as Python's sort is
  (it reverses, sorts ascending, and reverses again).\<close>

definition sorted_reverse :: "('a \<Rightarrow> 'k::linorder) \<Rightarrow> 'a list \<Rightarrow> 'a list" where
  "sorted_reverse key xs = rev (sort_key key (rev xs))"

text \<open>\<open>chain(*(self.getHandlers(event, channel) for channel in channels))\<close>\<close>

fun chain_handlers :: "'w env \<Rightarrow> 'w state \<Rightarrow> nat \<Rightarrow> string \<Rightarrow> chan list \<Rightarrow> exn + handler list" where
  "chain_handlers env s m name [] = Inr []"
| "chain_handlers env s m name (ch # chs) =
     (case getHandlers (recursion_limit env) s m name ch of
        Inl x \<Rightarrow> Inl x
      | Inr H \<Rightarrow> (case chain_handlers env s m name chs of
                   Inl x \<Rightarrow> Inl x
                 | Inr hs \<Rightarrow> Inr (iter_handlers env H @ hs)))"

text \<open>The handler list of the dispatcher: from the cache, or computed and cached.\<close>

definition resolve :: "'w env \<Rightarrow> nat \<Rightarrow> nat \<Rightarrow> chan list \<Rightarrow> 'w state \<Rightarrow> exn + (handler list \<times> 'w state)" where
  "resolve env m e channels s =
     (let key = (ev_name (events s e), channels) in
      case cache (mgrs s m) key of
        Some hs \<Rightarrow> Inr (hs, s)
      | None \<Rightarrow>
          (case chain_handlers env s m (ev_name (events s e)) channels of
             Inl x \<Rightarrow> Inl x
           | Inr h \<Rightarrow>
               let hs = sorted_reverse sortkey h
               in Inr (hs, upd_mgr m (\<lambda>M. M\<lparr>cache := (cache M)(key \<mapsto> hs)\<rparr>) s)))"

text \<open>The \<open>try\<close> statement of the loop body: the call of one handler. The result is the
  exception that leaves the dispatcher (if any), the local \<open>value\<close>, the local \<open>error\<close>
  and the state.\<close>

definition invoke :: "'w env \<Rightarrow> nat \<Rightarrow> nat \<Rightarrow> arg list \<Rightarrow> (string \<times> arg) list \<Rightarrow> handler \<Rightarrow> pyval
    \<Rightarrow> 'w state \<Rightarrow> exn option \<times> pyval \<times> pyval \<times> 'w state" where
  "invoke env m e eargs ekwargs h error s =
     (let s1 = upd_event e (\<lambda>ev. ev\<lparr>ev_handler := Some h\<rparr>) s;
          r = call env h (if h_event h then Some e else None) eargs ekwargs (world s1);
          s2 = s1\<lparr>world := snd r, trace := trace s1 @ [Called h]\<rparr>
      in case fst r of
           Returned v \<Rightarrow> (None, v, error, s2)
         | Raised x \<Rightarrow>
             if host_fatal x then (Some x, PNone, error, s2)
             else
               let err = error_triple x;
                   s3 = upd_val (ev_value (events s2 e)) (\<lambda>V. V\<lparr>errors := True\<rparr>) s2;
                   s4 = (if failure (events s3 e)
                         then fire_new env m (ev_class (events s3 e) @ ''Failure'')
                                [AEvent e, AVal err] (ev_channels (events s3 e)) s3
                         else s3);
                   s5 = fire_new env m ''Error''
                          [AVal (PExcType (etype x)), AVal (evalue x),
                           AVal (PList (map PStr (etraceback x))), AHandler h] [] s4
               in (None, err, err, s5))"

text \<open>The statement after the \<open>try\<close>: a generator becomes a task, another non-null
  value is stored.\<close>

definition keep_value :: "nat \<Rightarrow> nat \<Rightarrow> pyval \<Rightarrow> 'w state \<Rightarrow> 'w state" where
  "keep_value m e v s =
     (if is_generator v then
        let s1 = upd_event e (\<lambda>ev. ev\<lparr>waitingHandlers := waitingHandlers ev + 1\<rparr>) s;
            s2 = upd_val (ev_value (events s1 e)) (\<lambda>V. V\<lparr>promise := True\<rparr>) s1
        in registerTask m (Task2 e (the_gen v)) s2
      else if v \<noteq> PNone then upd_val (ev_value (events s e)) (\<lambda>V. V\<lparr>v_value := v\<rparr>) s
      else s)"

text \<open>The \<open>for\<close> loop over the handlers; it returns the exception that leaves it (if
  any), the local \<open>error\<close> and the state.\<close>

fun run_handlers :: "'w env \<Rightarrow> nat \<Rightarrow> nat \<Rightarrow> arg list \<Rightarrow> (string \<times> arg) list \<Rightarrow> handler list
    \<Rightarrow> pyval \<Rightarrow> 'w state \<Rightarrow> exn option \<times> pyval \<times> 'w state" where
  "run_handlers env m e eargs ekwargs [] error s = (None, error, s)"
| "run_handlers env m e eargs ekwargs (h # hs) error s =
     (case invoke env m e eargs ekwargs h error s of
        (Some x, v, error', s1) \<Rightarrow> (Some x, error', s1)
      | (None, v, error', s1) \<Rightarrow>
          let s2 = keep_value m e v s1
          in if truthy v \<and> h_filter h then (None, error', s2)
             else run_handlers env m e eargs ekwargs hs error' s2)"

definition dispatcher :: "'w env \<Rightarrow> nat \<Rightarrow> nat \<Rightarrow> chan list \<Rightarrow> 'w state \<Rightarrow> exn option \<times> 'w state" where
  "dispatcher env m e channels s =
     (let eargs = ev_args (events s e);
          ekwargs = ev_kwargs (events s e)
      in case resolve env m e channels s of
           Inl x \<Rightarrow> (Some x, s)
         | Inr (hs, s1) \<Rightarrow>
             (case run_handlers env m e eargs ekwargs hs PNone s1 of
                (Some x, error, s2) \<Rightarrow> (Some x, s2)
              | (None, error, s2) \<Rightarrow> (None, eventDone env m e error s2)))"

subsection \<open>_flush, flushEvents\<close>

fun dispatch_all :: "'w env \<Rightarrow> nat \<Rightarrow> (nat \<times> chan list) list \<Rightarrow> 'w state \<Rightarrow> exn option \<times> 'w state" where
  "dispatch_all env m [] s = (None, s)"
| "dispatch_all env m ((e, channels) # q) s =
     (case dispatcher env m e channels s of
        (Some x, s1) \<Rightarrow> (Some x, s1)
      | (None, s1) \<Rightarrow> dispatch_all env m q s1)"

definition flush_queue :: "'w env \<Rightarrow> nat \<Rightarrow> 'w state \<Rightarrow> exn option \<times> 'w state" where
  "flush_queue env m s =
     dispatch_all env m (queue (mgrs s m)) (upd_mgr m (\<lambda>M. M\<lparr>queue := []\<rparr>) s)"

definition flushEvents :: "'w env \<Rightarrow> nat \<Rightarrow> 'w state \<Rightarrow> exn option \<times> 'w state" where
  "flushEvents env m s = flush_queue env (root (mgrs s m)) s"

subsection \<open>processTask\<close>

text \<open>The \<open>except StopIteration\<close> branch.\<close>

definition task_exhausted :: "'w env \<Rightarrow> nat \<Rightarrow> nat \<Rightarrow> nat \<Rightarrow> nat option \<Rightarrow> 'w state \<Rightarrow> 'w state" where
  "task_exhausted env m e t par s =
     (let s1 = unregisterTask m (Task2 e t) s;
          s2 = (case par of Some p \<Rightarrow> registerTask m (Task2 e p) s1 | None \<Rightarrow> s1);
          s3 = upd_event e (\<lambda>ev. ev\<lparr>waitingHandlers := waitingHandlers ev - 1\<rparr>) s2
      in if waitingHandlers (events s3 e) = 0
         then eventDone env m e PNone
                (upd_val (ev_value (events s3 e)) (\<lambda>V. V\<lparr>informed := Suc (informed V)\<rparr>) s3)
         else s3)"

text \<open>The last argument of the \<open>Error\<close> event of \<open>processTask\<close> is the name \<open>handler\<close>
  of the module, the decorator imported from \<open>handlers\<close>: an object.\<close>

definition handler_decorator :: pyval where
  "handler_decorator = PObject 0 True"

text \<open>The bare \<open>except\<close> branch; \<open>v\<close> is the local \<open>value\<close> at the raise.\<close>

definition task_failed :: "'w env \<Rightarrow> nat \<Rightarrow> nat \<Rightarrow> nat \<Rightarrow> pyval \<Rightarrow> exn \<Rightarrow> 'w state \<Rightarrow> 'w state" where
  "task_failed env m e t v x s =
     (let s1 = unregisterTask m (Task2 e t) s;
          s2 = upd_val (ev_value (events s1 e))
                 (\<lambda>V. V\<lparr>v_value := v, errors := True, informed := Suc (informed V)\<rparr>) s1;
          s3 = (if failure (events s2 e)
                then fire_new env m (ev_class (events s2 e) @ ''Failure'')
                       [AEvent e, AVal (error_triple x)] (ev_channels (events s2 e)) s2
                else s2)
      in fire_new env m ''Error''
           [AVal (PExcType (etype x)), AVal (evalue x),
            AVal (PList (map PStr (etraceback x))), AVal handler_decorator] [] s3)"

text \<open>The first argument is the depth of stack left. A nested generator is advanced at
  once by a recursive call (without a parent); a call that finds no stack left raises
  \<open>RuntimeError\<close>, which the bare \<open>except\<close> of the calling frame catches.\<close>

fun processTask :: "'w env \<Rightarrow> nat \<Rightarrow> nat \<Rightarrow> nat \<Rightarrow> nat \<Rightarrow> nat option \<Rightarrow> 'w state
    \<Rightarrow> exn option \<times> 'w state" where
  "processTask env 0 m e t par s = (Some recursion_error, s)"
| "processTask env (Suc d) m e t par s =
     (let r = next_step env t (world s);
          s1 = s\<lparr>world := snd r, trace := trace s @ [Stepped t]\<rparr>
      in case fst r of
           Yielded v \<Rightarrow>
             if is_generator v then
               let s2 = upd_event e (\<lambda>ev. ev\<lparr>waitingHandlers := waitingHandlers ev + 1\<rparr>) s1;
                   s3 = registerTask m (Task3 e (the_gen v) t) s2;
                   s4 = unregisterTask m (Task2 e t) s3
               in (case processTask env d m e (the_gen v) None s4 of
                     (None, s5) \<Rightarrow> (None, s5)
                   | (Some x, s5) \<Rightarrow>
                       if etype x = StopIteration
                       then (None, task_exhausted env m e t par s5)
                       else (None, task_failed env m e t v x s5))
             else if v \<noteq> PNone
             then (None, upd_val (ev_value (events s1 e)) (\<lambda>V. V\<lparr>v_value := v\<rparr>) s1)
             else (None, s1)
         | Exhausted \<Rightarrow> (None, task_exhausted env m e t par s1)
         | Failed x \<Rightarrow>
             if etype x = StopIteration
             then (None, task_exhausted env m e t par s1)
             else (None, task_failed env m e t PNone x s1))"

subsection \<open>tick\<close>

fun run_ticks :: "'w env \<Rightarrow> nat \<Rightarrow> nat list \<Rightarrow> 'w state \<Rightarrow> exn option \<times> 'w state" where
  "run_ticks env m [] s = (None, s)"
| "run_ticks env m (f # fs) s =
     (let r = call_tick env f (world s);
          s1 = s\<lparr>world := snd r, trace := trace s @ [Ticked f]\<rparr>
      in case fst r of
           Returned u \<Rightarrow> run_ticks env m fs s1
         | Raised x \<Rightarrow>
             if host_fatal x then (Some x, s1)
             else run_ticks env m fs
                    (fire_new env m ''Error''
                       [AVal (PExcType (etype x)), AVal (evalue x),
                        AVal (PList (map PStr (etraceback x)))] [] s1))"

text \<open>\<open>self.processTask(*task)\<close>\<close>

fun process :: "'w env \<Rightarrow> nat \<Rightarrow> task \<Rightarrow> 'w state \<Rightarrow> exn option \<times> 'w state" where
  "process env m (Task2 e g) s = processTask env (recursion_limit env) m e g None s"
| "process env m (Task3 e g p) s = processTask env (recursion_limit env) m e g (Some p) s"

fun run_tasks :: "'w env \<Rightarrow> nat \<Rightarrow> task list \<Rightarrow> 'w state \<Rightarrow> exn option \<times> 'w state" where
  "run_tasks env m [] s = (None, s)"
| "run_tasks env m (t # ts) s =
     (case process env m t s of
        (Some x, s1) \<Rightarrow> (Some x, s1)
      | (None, s1) \<Rightarrow> run_tasks env m ts s1)"

text \<open>\<open>if self\<close> is \<open>len(self) != 0\<close>, the length of the manager's own queue;
  \<open>sleep(TIMEOUT)\<close> is the action \<open>Slept\<close>.\<close>

definition tick :: "'w env \<Rightarrow> nat \<Rightarrow> 'w state \<Rightarrow> exn option \<times> 'w state" where
  "tick env m s =
     (case run_ticks env m (iter_ticks env (ticks (mgrs s m))) s of
        (Some x, s1) \<Rightarrow> (Some x, s1)
      | (None, s1) \<Rightarrow>
          (case run_tasks env m (iter_tasks env (tasks (mgrs s1 m))) s1 of
             (Some x, s2) \<Rightarrow> (Some x, s2)
           | (None, s2) \<Rightarrow>
               if queue (mgrs s2 m) \<noteq> [] then flushEvents env m s2
               else (None, s2\<lparr>trace := trace s2 @ [Slept]\<rparr>)))"

subsection \<open>stop\<close>

text \<open>\<open>for _ in range(n): self.tick()\<close>\<close>

fun tick_times :: "'w env \<Rightarrow> nat \<Rightarrow> nat \<Rightarrow> 'w state \<Rightarrow> exn option \<times> 'w state" where
  "tick_times env m 0 s = (None, s)"
| "tick_times env m (Suc n) s =
     (case tick env m s of
        (Some x, s1) \<Rightarrow> (Some x, s1)
      | (None, s1) \<Rightarrow> tick_times env m n s1)"

definition stop :: "'w env \<Rightarrow> nat \<Rightarrow> 'w state \<Rightarrow> exn option \<times> 'w state" where
  "stop env m s =
     (if \<not> running (mgrs s m) then (None, s)
      else
        let s1 = upd_mgr m (\<lambda>M. M\<lparr>running := False\<rparr>) s;
            s2 = fire_new env m ''Stopped'' [AManager m] [] s1
        in case tick_times env m 3 s2 of
             (Some x, s3) \<Rightarrow> (Some x, s3)
           | (None, s3) \<Rightarrow> (None, upd_mgr m (\<lambda>M. M\<lparr>task_handle := None\<rparr>) s3))"

subsection \<open>The handler registry and the component tree\<close>

definition key_error :: exn where
  "key_error = \<lparr>etype = KeyError, evalue = PNone, etraceback = []\<rparr>"

text \<open>\<open>MethodType(f, self, self.__class__)\<close> for a plain function, else \<open>f\<close> itself.\<close>

definition bind_method :: "nat \<Rightarrow> handler \<Rightarrow> handler" where
  "bind_method m f = (if h_self f = None then f\<lparr>h_self := Some m\<rparr> else f)"

text \<open>\<open>self._handlers.setdefault(name, set()).add(method)\<close>\<close>

definition add_to_bucket :: "string \<Rightarrow> handler \<Rightarrow> manager \<Rightarrow> manager" where
  "add_to_bucket n h M = M\<lparr>handlers := (handlers M)(n \<mapsto> insert h (bucket (handlers M) n))\<rparr>"

definition clear_cache :: "nat \<Rightarrow> 'w state \<Rightarrow> 'w state" where
  "clear_cache r s = upd_mgr r (\<lambda>M. M\<lparr>cache := Map.empty\<rparr>) s"

definition addHandler :: "nat \<Rightarrow> handler \<Rightarrow> 'w state \<Rightarrow> 'w state" where
  "addHandler m f s =
     (let method = bind_method m f;
          s1 = upd_mgr m (\<lambda>M. M\<lparr>attrs := (attrs M)(h_name method \<mapsto> method)\<rparr>) s;
          s2 = (if names method = [] \<and> h_channel method = CStr ''*''
                then upd_mgr m (\<lambda>M. M\<lparr>globals := insert method (globals M)\<rparr>) s1
                else if names method = []
                then upd_mgr m (add_to_bucket ''*'' method) s1
                else upd_mgr m (\<lambda>M. fold (\<lambda>n. add_to_bucket n method) (names method) M) s1)
      in clear_cache (root (mgrs s2 m)) s2)"

text \<open>The loop of \<open>removeHandler\<close>: \<open>self._handlers[name]\<close> and \<open>remove\<close> raise \<open>KeyError\<close>
  for a missing bucket or a missing handler, and the loop ends there.\<close>

fun remove_names :: "nat \<Rightarrow> handler \<Rightarrow> string list \<Rightarrow> 'w state \<Rightarrow> exn option \<times> 'w state" where
  "remove_names m method [] s = (None, s)"
| "remove_names m method (n # ns) s =
     (case handlers (mgrs s m) n of
        None \<Rightarrow> (Some key_error, s)
      | Some H \<Rightarrow>
          if method \<notin> H then (Some key_error, s)
          else if H - {method} \<noteq> {}
          then remove_names m method ns
                 (upd_mgr m (\<lambda>M. M\<lparr>handlers := (handlers M)(n \<mapsto> H - {method})\<rparr>) s)
          else remove_names m method ns
                 (upd_mgr m (\<lambda>M. M\<lparr>handlers := (handlers M)(n := None),
                                   attrs := (attrs M)(h_name method := None)\<rparr>) s))"

definition removeHandler :: "nat \<Rightarrow> handler \<Rightarrow> string option \<Rightarrow> 'w state \<Rightarrow> exn option \<times> 'w state" where
  "removeHandler m f event s =
     (let method = bind_method m f;
          ns = (case event of None \<Rightarrow> names method | Some n \<Rightarrow> [n])
      in case remove_names m method ns s of
           (Some x, s1) \<Rightarrow> (Some x, s1)
         | (None, s1) \<Rightarrow> (None, clear_cache (root (mgrs s1 m)) s1))"

text \<open>The recursion of \<open>getTicks\<close> over the components, with the depth of stack left.\<close>

fun getTicks :: "nat \<Rightarrow> 'w state \<Rightarrow> nat \<Rightarrow> exn + nat set" where
  "getTicks 0 s m = Inl recursion_error"
| "getTicks (Suc d) s m =
     (if \<exists>c \<in> components (mgrs s m). isl (getTicks d s c) then Inl recursion_error
      else Inr (own_ticks (mgrs s m) \<union> (\<Union>c \<in> components (mgrs s m). projr (getTicks d s c))))"

text \<open>\<open>self.root._ticks = self.root.getTicks()\<close>\<close>

definition refresh_ticks :: "'w env \<Rightarrow> nat \<Rightarrow> 'w state \<Rightarrow> exn option \<times> 'w state" where
  "refresh_ticks env r s =
     (case getTicks (recursion_limit env) s r of
        Inl x \<Rightarrow> (Some x, s)
      | Inr T \<Rightarrow> (None, upd_mgr r (\<lambda>M. M\<lparr>ticks := T\<rparr>) s))"

definition registerChild :: "'w env \<Rightarrow> nat \<Rightarrow> nat \<Rightarrow> 'w state \<Rightarrow> exn option \<times> 'w state" where
  "registerChild env m c s =
     (let s1 = upd_mgr m (\<lambda>M. M\<lparr>components := insert c (components M)\<rparr>) s;
          s2 = upd_mgr (root (mgrs s1 m)) (\<lambda>M. M\<lparr>queue := queue M @ queue (mgrs s1 c)\<rparr>) s1;
          s3 = upd_mgr c (\<lambda>M. M\<lparr>queue := []\<rparr>) s2;
          s4 = clear_cache (root (mgrs s3 m)) s3
      in refresh_ticks env (root (mgrs s4 m)) s4)"

definition unregisterChild :: "'w env \<Rightarrow> nat \<Rightarrow> nat \<Rightarrow> 'w state \<Rightarrow> exn option \<times> 'w state" where
  "unregisterChild env m c s =
     (if c \<notin> components (mgrs s m) then (Some key_error, s)
      else
        let s1 = upd_mgr m (\<lambda>M. M\<lparr>components := components M - {c}\<rparr>) s;
            s2 = clear_cache (root (mgrs s1 m)) s1
        in refresh_ticks env (root (mgrs s2 m)) s2)"

subsection \<open>Initial objects\<close>

text \<open>\<open>Manager.__init__\<close>: the manager is its own root and parent.\<close>

definition Manager :: "nat \<Rightarrow> manager" where
  "Manager m = \<lparr>tasks = {}, ticks = {}, cache = Map.empty, queue = [], globals = {},
     handlers = Map.empty, task_handle = None, running = False, root = m, parent = m,
     components = {}, channel = None, attrs = Map.empty, own_ticks = {}\<rparr>"

text \<open>A state of new managers; events and values are allocated from 0.\<close>

definition start_state :: "'w env \<Rightarrow> 'w \<Rightarrow> 'w state" where
  "start_state env w = \<lparr>mgrs = Manager, events = (\<lambda>i. new_event env [] []),
     vals = (\<lambda>i. Value 0 0 False), next_event = 0, next_val = 0, world = w, trace = []\<rparr>"

subsection \<open>Observations\<close>

text \<open>Between two states the managers differ at most in their task sets, caches and
  queues.\<close>

definition frame :: "'w state \<Rightarrow> 'w state \<Rightarrow> bool" where
  "frame s s' = (\<forall>n. mgrs s' n = (mgrs s n)\<lparr>tasks := tasks (mgrs s' n),
     cache := cache (mgrs s' n), queue := queue (mgrs s' n)\<rparr>)"

text \<open>The channels \<open>fireEvent\<close> settles on for an event that has none of its own.\<close>

definition default_channels :: "'w state \<Rightarrow> nat \<Rightarrow> chan list \<Rightarrow> chan list" where
  "default_channels s m chs =
     (if chs \<noteq> [] then chs else [case channel (mgrs s m) of None \<Rightarrow> CStr ''*'' | Some c \<Rightarrow> c])"

text \<open>The events appended to the queue of manager \<open>r\<close> between two states: class,
  arguments and channels of each entry.\<close>

definition fired_since :: "nat \<Rightarrow> 'w state \<Rightarrow> 'w state \<Rightarrow> (string \<times> arg list \<times> chan list) list" where
  "fired_since r s s' =
     map (\<lambda>(e, chs). (ev_class (events s' e), ev_args (events s' e), chs))
       (drop (length (queue (mgrs s r))) (queue (mgrs s' r)))"

text \<open>The state right after the call of a handler: the handler is noted in the event,
  the user's state is the one the call left, the call is observed.\<close>

definition called :: "'w env \<Rightarrow> nat \<Rightarrow> arg list \<Rightarrow> (string \<times> arg) list \<Rightarrow> handler \<Rightarrow> 'w state \<Rightarrow> 'w state" where
  "called env e eargs ekwargs h s =
     (upd_event e (\<lambda>ev. ev\<lparr>ev_handler := Some h\<rparr>) s)
        \<lparr>world := snd (call env h (if h_event h then Some e else None) eargs ekwargs (world s)),
         trace := trace s @ [Called h]\<rparr>"

text \<open>Descending in the sort key, as the dispatcher wants its handler list.\<close>

definition descending :: "handler list \<Rightarrow> bool" where
  "descending hs = sorted_wrt (\<lambda>a b. sortkey b \<le> sortkey a) hs"

text \<open>Every list in the cache of a manager is descending.\<close>

definition cache_sorted :: "'w state \<Rightarrow> nat \<Rightarrow> bool" where
  "cache_sorted s m = (\<forall>k hs. cache (mgrs s m) k = Some hs \<longrightarrow> descending hs)"

text \<open>The number of tasks of a manager that carry an event.\<close>

definition task_count :: "'w state \<Rightarrow> nat \<Rightarrow> nat \<Rightarrow> int" where
  "task_count s m e = int (card {t \<in> tasks (mgrs s m). task_event t = e})"

subsection \<open>Example objects\<close>

text \<open>User code that does nothing: handlers return \<open>None\<close>, generators are exhausted,
  tick callables return.\<close>

definition idle_env :: "unit env" where
  "idle_env = \<lparr>call = (\<lambda>h e as kw w. (Returned PNone, w)),
     next_step = (\<lambda>g w. (Exhausted, w)),
     call_tick = (\<lambda>f w. (Returned (), w)),
     iter_handlers = (\<lambda>H. []),
     iter_tasks = (\<lambda>T. []),
     iter_ticks = sorted_list_of_set,
     event_name = (\<lambda>c. c),
     recursion_limit = 10\<rparr>"

text \<open>A root manager 0 with one component 1 on channel \<open>x\<close>, and one event 0.\<close>

definition small_tree :: "unit state" where
  "small_tree = (start_state idle_env ())\<lparr>
     mgrs := Manager(0 := (Manager 0)\<lparr>components := {1}\<rparr>,
                     1 := (Manager 1)\<lparr>root := 0, parent := 0, channel := Some (CStr ''x'')\<rparr>),
     next_event := 1\<rparr>"

text \<open>An exception that is neither an interrupt nor an exit.\<close>

definition boom :: exn where
  "boom = \<lparr>etype = OtherException ''ValueError'', evalue = PStr ''boom'', etraceback = []\<rparr>"

text \<open>Two handlers of manager 0 for the event \<open>ping\<close>: a filter of priority 10 and a
  plain handler of priority 1.\<close>

definition h_hi :: handler where
  "h_hi = \<lparr>h_func = 1, h_self = Some 0, h_name = ''hi'', names = [''ping''],
     h_channel = CStr ''*'', priority = 10, h_filter = True, h_event = False\<rparr>"

definition h_lo :: handler where
  "h_lo = \<lparr>h_func = 2, h_self = Some 0, h_name = ''lo'', names = [''ping''],
     h_channel = CStr ''*'', priority = 1, h_filter = False, h_event = False\<rparr>"

text \<open>User code in which the function of \<open>h_hi\<close> has the given outcome.\<close>

definition scripted_env :: "pyval outcome \<Rightarrow> unit env" where
  "scripted_env out = idle_env\<lparr>call := (\<lambda>h e as kw w.
     (if h_func h = 1 then out else Returned PNone, w))\<rparr>"

definition interrupt :: exn where
  "interrupt = \<lparr>etype = KeyboardInterrupt, evalue = PNone, etraceback = []\<rparr>"

text \<open>User code in which the function of \<open>h_hi\<close> and the tick callable 7 have the
  given outcome.\<close>

definition failing_env :: "exn \<Rightarrow> unit env" where
  "failing_env x = idle_env\<lparr>
     call := (\<lambda>h e as kw w. (if h_func h = 1 then Raised x else Returned PNone, w)),
     call_tick := (\<lambda>f w. (if f = 7 then Raised x else Returned (), w))\<rparr>"

text \<open>The event 0 of class \<open>Ping\<close>, fired on channel \<open>*\<close> with every alert asked for.\<close>

definition ping :: event where
  "ping = \<lparr>ev_class = ''Ping'', ev_name = ''ping'', ev_channels = [CStr ''*''],
     ev_args = [], ev_kwargs = [], ev_value = 0, ev_handler = None, waitingHandlers = 0,
     success = True, failure = True, alert_done = True, notify = False\<rparr>"

text \<open>A root manager 0 with the tick callable 7, both handlers registered and cached for
  \<open>ping\<close>, and the event 0 in its queue.\<close>

definition ping_state :: "unit state" where
  "ping_state = \<lparr>
     mgrs = Manager(0 := (Manager 0)\<lparr>ticks := {7}, own_ticks := {7},
         cache := [(''ping'', [CStr ''*'']) \<mapsto> [h_hi, h_lo]],
         handlers := [''ping'' \<mapsto> {h_hi, h_lo}],
         queue := [(0, [CStr ''*''])]\<rparr>),
     events = (\<lambda>i. ping), vals = (\<lambda>i. Value 0 0 False),
     next_event = 1, next_val = 1, world = (), trace = []\<rparr>"

text \<open>A handler that raises and a handler that returns a generator, neither a filter;
  the generator 9 is exhausted at its first step.\<close>

definition h_err :: handler where
  "h_err = \<lparr>h_func = 3, h_self = Some 0, h_name = ''err'', names = [''ping''],
     h_channel = CStr ''*'', priority = 5, h_filter = False, h_event = False\<rparr>"

definition h_gen :: handler where
  "h_gen = \<lparr>h_func = 4, h_self = Some 0, h_name = ''gen'', names = [''ping''],
     h_channel = CStr ''*'', priority = 4, h_filter = False, h_event = False\<rparr>"

definition late_env :: "unit env" where
  "late_env = idle_env\<lparr>call := (\<lambda>h e as kw w.
     (if h_func h = 3 then Raised boom
      else if h_func h = 4 then Returned (PGen 9) else Returned PNone, w))\<rparr>"

definition late_state :: "unit state" where
  "late_state = upd_mgr 0 (\<lambda>M. M\<lparr>cache := [(''ping'', [CStr ''*'']) \<mapsto> [h_err, h_gen]]\<rparr>)
     ping_state"

text \<open>The event 0 is dispatched, then its task is advanced once.\<close>

definition late_run :: "unit state" where
  "late_run = snd (processTask late_env 1 0 0 9 None
     (snd (dispatcher late_env 0 0 [CStr ''*''] late_state)))"

text \<open>A new manager 0 whose tick set holds the callable 7; its queue and task set are
  empty.\<close>

definition ticking_state :: "unit state" where
  "ticking_state = upd_mgr 0 (\<lambda>M. M\<lparr>ticks := {7}, own_ticks := {7}\<rparr>) (start_state idle_env ())"

text \<open>Two handlers of manager 0 for \<open>ping\<close> with the same priority and filter flag, a
  state in which they are registered and nothing is cached, and two runs of the same user
  code that differ only in the order in which a set of handlers is iterated.\<close>

definition h_a :: handler where
  "h_a = \<lparr>h_func = 5, h_self = Some 0, h_name = ''a'', names = [''ping''],
     h_channel = CStr ''*'', priority = 0, h_filter = False, h_event = False\<rparr>"

definition h_b :: handler where
  "h_b = \<lparr>h_func = 6, h_self = Some 0, h_name = ''b'', names = [''ping''],
     h_channel = CStr ''*'', priority = 0, h_filter = False, h_event = False\<rparr>"

definition tie_state :: "unit state" where
  "tie_state = upd_mgr 0 (\<lambda>M. M\<lparr>cache := Map.empty, handlers := [''ping'' \<mapsto> {h_a, h_b}]\<rparr>)
     ping_state"

definition order_env :: "handler list \<Rightarrow> unit env" where
  "order_env hs = idle_env\<lparr>iter_handlers := (\<lambda>H. filter (\<lambda>h. h \<in> H) hs)\<rparr>"

text \<open>The manager of \<open>ping_state\<close> with nothing cached: the next lookup of \<open>ping\<close>
  computes the handler list.\<close>

definition cold_state :: "unit state" where
  "cold_state = upd_mgr 0 (\<lambda>M. M\<lparr>cache := Map.empty\<rparr>) ping_state"

text \<open>A handler for the two events \<open>ping\<close> and \<open>pong\<close>. It is added to a new manager 0,
  removed for \<open>pong\<close> alone, and then \<open>ping\<close> is looked up, which fills the cache.\<close>

definition h_two :: handler where
  "h_two = \<lparr>h_func = 8, h_self = Some 0, h_name = ''two'', names = [''ping'', ''pong''],
     h_channel = CStr ''*'', priority = 0, h_filter = False, h_event = False\<rparr>"

definition fresh_ping :: "unit state" where
  "fresh_ping = (start_state idle_env ())\<lparr>events := (\<lambda>i. ping), next_event := 1, next_val := 1\<rparr>"

definition half_removed :: "unit state" where
  "half_removed = snd (removeHandler 0 h_two (Some ''pong'') (addHandler 0 h_two fresh_ping))"

definition stale_state :: "unit state" where
  "stale_state = snd (projr (resolve (order_env [h_two]) 0 0 [CStr ''*''] half_removed))"

text \<open>The same manager while it runs in a background thread.\<close>

definition running_state :: "unit state" where
  "running_state = upd_mgr 0 (\<lambda>M. M\<lparr>running := True, task_handle := Some 1\<rparr>) ticking_state"

text \<open>The event 0 with one task, the generator 3, which at its first step yields the
  generator 4; that one yields \<open>None\<close>.\<close>

definition nest_env :: "unit env" where
  "nest_env = idle_env\<lparr>next_step := (\<lambda>g w.
     (if g = 3 then Yielded (PGen 4) else if g = 4 then Yielded PNone else Exhausted, w))\<rparr>"

definition nest_state :: "unit state" where
  "nest_state = upd_mgr 0 (\<lambda>M. M\<lparr>tasks := {Task2 0 3}\<rparr>)
     (upd_event 0 (\<lambda>ev. ev\<lparr>waitingHandlers := 1\<rparr>) ping_state)"

section \<open>Properties\<close>

subsection \<open>Frames and firing\<close>


lemma frame_refl [simp]: "frame s s"
  by (simp add: frame_def)

lemma frame_trans: "frame s s1 \<Longrightarrow> frame s1 s2 \<Longrightarrow> frame s s2"
  unfolding frame_def
proof
  fix n assume a: "\<forall>n. mgrs s1 n = (mgrs s n)\<lparr>tasks := tasks (mgrs s1 n), cache := cache (mgrs s1 n), queue := queue (mgrs s1 n)\<rparr>"
    and b: "\<forall>n. mgrs s2 n = (mgrs s1 n)\<lparr>tasks := tasks (mgrs s2 n), cache := cache (mgrs s2 n), queue := queue (mgrs s2 n)\<rparr>"
  from a have a': "mgrs s1 n = (mgrs s n)\<lparr>tasks := tasks (mgrs s1 n), cache := cache (mgrs s1 n), queue := queue (mgrs s1 n)\<rparr>" by blast
  from b have b': "mgrs s2 n = (mgrs s1 n)\<lparr>tasks := tasks (mgrs s2 n), cache := cache (mgrs s2 n), queue := queue (mgrs s2 n)\<rparr>" by blast
  show "mgrs s2 n = (mgrs s n)\<lparr>tasks := tasks (mgrs s2 n), cache := cache (mgrs s2 n), queue := queue (mgrs s2 n)\<rparr>"
    by (subst b', subst a') simp
qed

lemma frame_fields:
  assumes "frame s s'"
  shows "running (mgrs s' n) = running (mgrs s n)" "root (mgrs s' n) = root (mgrs s n)"
    "channel (mgrs s' n) = channel (mgrs s n)" "ticks (mgrs s' n) = ticks (mgrs s n)"
    "task_handle (mgrs s' n) = task_handle (mgrs s n)"
    "handlers (mgrs s' n) = handlers (mgrs s n)" "globals (mgrs s' n) = globals (mgrs s n)"
    "components (mgrs s' n) = components (mgrs s n)"
proof -
  from assms have e: "mgrs s' n = (mgrs s n)\<lparr>tasks := tasks (mgrs s' n), cache := cache (mgrs s' n), queue := queue (mgrs s' n)\<rparr>"
    by (simp add: frame_def)
  show "running (mgrs s' n) = running (mgrs s n)" by (subst e) simp
  show "root (mgrs s' n) = root (mgrs s n)" by (subst e) simp
  show "channel (mgrs s' n) = channel (mgrs s n)" by (subst e) simp
  show "ticks (mgrs s' n) = ticks (mgrs s n)" by (subst e) simp
  show "task_handle (mgrs s' n) = task_handle (mgrs s n)" by (subst e) simp
  show "handlers (mgrs s' n) = handlers (mgrs s n)" by (subst e) simp
  show "globals (mgrs s' n) = globals (mgrs s n)" by (subst e) simp
  show "components (mgrs s' n) = components (mgrs s n)" by (subst e) simp
qed

lemma frame_upd_event [simp]: "frame s (upd_event e f s)"
  by (simp add: frame_def upd_event_def)

lemma frame_upd_val [simp]: "frame s (upd_val v f s)"
  by (simp add: frame_def upd_val_def)

lemma frame_fireEvent: "frame s (snd (fireEvent m e chs s))"
  by (simp add: frame_def fireEvent_def fire_raw_def upd_mgr_def upd_event_def Let_def)

lemma frame_fire_new: "frame s (fire_new env m c as chs s)"
  by (simp add: frame_def fire_new_def create_def fireEvent_def fire_raw_def upd_mgr_def upd_event_def Let_def)


lemma fire_new_trace [simp]: "trace (fire_new env m c as chs s) = trace s"
  by (simp add: fire_new_def create_def fireEvent_def fire_raw_def upd_mgr_def upd_event_def Let_def)

lemma fire_new_world [simp]: "world (fire_new env m c as chs s) = world s"
  by (simp add: fire_new_def create_def fireEvent_def fire_raw_def upd_mgr_def upd_event_def Let_def)

lemma fire_new_next_event [simp]: "next_event (fire_new env m c as chs s) = Suc (next_event s)"
  by (simp add: fire_new_def create_def fireEvent_def fire_raw_def upd_mgr_def upd_event_def Let_def)

lemma fire_new_next_val [simp]: "next_val (fire_new env m c as chs s) = Suc (next_val s)"
  by (simp add: fire_new_def create_def fireEvent_def fire_raw_def upd_mgr_def upd_event_def Let_def)

lemma fire_new_events_old:
  "i \<noteq> next_event s \<Longrightarrow> events (fire_new env m c as chs s) i = events s i"
  by (simp add: fire_new_def create_def fireEvent_def fire_raw_def upd_mgr_def upd_event_def Let_def)

lemma fire_new_vals_old:
  "v \<noteq> next_val s \<Longrightarrow> vals (fire_new env m c as chs s) v = vals s v"
  by (simp add: fire_new_def create_def fireEvent_def fire_raw_def upd_mgr_def upd_event_def Let_def)

lemma fire_new_tasks [simp]: "tasks (mgrs (fire_new env m c as chs s) n) = tasks (mgrs s n)"
  by (simp add: fire_new_def create_def fireEvent_def fire_raw_def upd_mgr_def upd_event_def Let_def)

lemma fire_new_cache [simp]: "cache (mgrs (fire_new env m c as chs s) n) = cache (mgrs s n)"
  by (simp add: fire_new_def create_def fireEvent_def fire_raw_def upd_mgr_def upd_event_def Let_def)


lemma new_event_channels [simp]: "ev_channels (new_event env c as) = []"
  by (simp add: new_event_def)

lemma new_event_notify [simp]: "notify (new_event env c as) = False"
  by (simp add: new_event_def)

lemma fire_new_events_new:
  "events (fire_new env m c as chs s) (next_event s) =
     (new_event env c as)\<lparr>ev_channels := default_channels s m chs, ev_value := next_val s\<rparr>"
  by (simp add: fire_new_def create_def fireEvent_def fire_raw_def upd_mgr_def upd_event_def Let_def
      fire_channels_def default_channels_def)


lemma fire_new_events [simp]:
  "events (fire_new env m c as chs s) i =
     (if i = next_event s
      then (new_event env c as)\<lparr>ev_channels := default_channels s m chs, ev_value := next_val s\<rparr>
      else events s i)"
  by (simp add: fire_new_events_old fire_new_events_new)

lemma fire_new_vals [simp]:
  "vals (fire_new env m c as chs s) v =
     (if v = next_val s then Value (next_event s) m False else vals s v)"
  by (simp add: fire_new_def create_def fireEvent_def fire_raw_def upd_mgr_def upd_event_def Let_def)

lemma fire_new_queue [simp]:
  "queue (mgrs (fire_new env m c as chs s) n) =
     queue (mgrs s n) @ (if n = root (mgrs s m) then [(next_event s, default_channels s m chs)] else [])"
  by (simp add: fire_new_def create_def fireEvent_def fire_raw_def upd_mgr_def upd_event_def Let_def
      fire_channels_def default_channels_def)

lemma fire_new_fields [simp]:
  "running (mgrs (fire_new env m c as chs s) n) = running (mgrs s n)"
  "root (mgrs (fire_new env m c as chs s) n) = root (mgrs s n)"
  "channel (mgrs (fire_new env m c as chs s) n) = channel (mgrs s n)"
  by (rule frame_fields [OF frame_fire_new])+

lemma eventDone_waiting: "waitingHandlers (events s e) \<noteq> 0 \<Longrightarrow> eventDone env m e err s = s"
  by (simp add: eventDone_def)

lemma eventDone_trace [simp]: "trace (eventDone env m e err s) = trace s"
  by (simp add: eventDone_def Let_def)

lemma eventDone_world [simp]: "world (eventDone env m e err s) = world s"
  by (simp add: eventDone_def Let_def)

lemma frame_eventDone: "frame s (eventDone env m e err s)"
  by (simp add: eventDone_def Let_def frame_fire_new frame_trans [OF frame_fire_new frame_fire_new])

lemma eventDone_tasks [simp]: "tasks (mgrs (eventDone env m e err s) n) = tasks (mgrs s n)"
  by (simp add: eventDone_def Let_def)

lemma eventDone_cache [simp]: "cache (mgrs (eventDone env m e err s) n) = cache (mgrs s n)"
  by (simp add: eventDone_def Let_def)

lemma eventDone_events_old [simp]:
  "i < next_event s \<Longrightarrow> events (eventDone env m e err s) i = events s i"
  by (simp add: eventDone_def Let_def)


subsection \<open>State updates and the handler loop\<close>


lemma upd_mgr_simps [simp]:
  "trace (upd_mgr m f s) = trace s" "world (upd_mgr m f s) = world s"
  "events (upd_mgr m f s) = events s" "vals (upd_mgr m f s) = vals s"
  "next_event (upd_mgr m f s) = next_event s" "next_val (upd_mgr m f s) = next_val s"
  "mgrs (upd_mgr m f s) n = (if n = m then f (mgrs s m) else mgrs s n)"
  by (simp_all add: upd_mgr_def)

lemma upd_event_simps [simp]:
  "trace (upd_event e f s) = trace s" "world (upd_event e f s) = world s"
  "mgrs (upd_event e f s) = mgrs s" "vals (upd_event e f s) = vals s"
  "next_event (upd_event e f s) = next_event s" "next_val (upd_event e f s) = next_val s"
  "events (upd_event e f s) i = (if i = e then f (events s e) else events s i)"
  by (simp_all add: upd_event_def)

lemma upd_val_simps [simp]:
  "trace (upd_val v f s) = trace s" "world (upd_val v f s) = world s"
  "mgrs (upd_val v f s) = mgrs s" "events (upd_val v f s) = events s"
  "next_event (upd_val v f s) = next_event s" "next_val (upd_val v f s) = next_val s"
  "vals (upd_val v f s) u = (if u = v then f (vals s v) else vals s u)"
  by (simp_all add: upd_val_def)

lemma registerTask_simps [simp]:
  "trace (registerTask m g s) = trace s" "world (registerTask m g s) = world s"
  "events (registerTask m g s) = events s" "vals (registerTask m g s) = vals s"
  "next_event (registerTask m g s) = next_event s" "next_val (registerTask m g s) = next_val s"
  "tasks (mgrs (registerTask m g s) n) = (if n = m then insert g (tasks (mgrs s m)) else tasks (mgrs s n))"
  "cache (mgrs (registerTask m g s) n) = cache (mgrs s n)"
  "queue (mgrs (registerTask m g s) n) = queue (mgrs s n)"
  by (simp_all add: registerTask_def)

lemma unregisterTask_simps [simp]:
  "trace (unregisterTask m g s) = trace s" "world (unregisterTask m g s) = world s"
  "events (unregisterTask m g s) = events s" "vals (unregisterTask m g s) = vals s"
  "next_event (unregisterTask m g s) = next_event s" "next_val (unregisterTask m g s) = next_val s"
  "tasks (mgrs (unregisterTask m g s) n) = (if n = m then tasks (mgrs s m) - {g} else tasks (mgrs s n))"
  "cache (mgrs (unregisterTask m g s) n) = cache (mgrs s n)"
  "queue (mgrs (unregisterTask m g s) n) = queue (mgrs s n)"
  by (auto simp: unregisterTask_def)

lemma frame_registerTask [simp]: "frame s (registerTask m g s)"
  by (simp add: frame_def registerTask_def)

lemma frame_unregisterTask [simp]: "frame s (unregisterTask m g s)"
  by (simp add: frame_def unregisterTask_def)

lemma keep_value_trace [simp]: "trace (keep_value m e v s) = trace s"
  by (simp add: keep_value_def Let_def)

lemma keep_value_world [simp]: "world (keep_value m e v s) = world s"
  by (simp add: keep_value_def Let_def)

lemma frame_keep_value: "frame s (keep_value m e v s)"
  by (simp add: keep_value_def Let_def frame_def registerTask_def)

lemma invoke_trace [simp]:
  "trace (snd (snd (snd (invoke env m e eargs ekwargs h error s)))) = trace s @ [Called h]"
  by (simp add: invoke_def Let_def split: outcome.split)

lemma invoke_raised:
  assumes "fst (call env h (if h_event h then Some e else None) eargs ekwargs (world s)) = Raised x"
    and "\<not> host_fatal x"
  shows "fst (invoke env m e eargs ekwargs h error s) = None"
    and "fst (snd (invoke env m e eargs ekwargs h error s)) = error_triple x"
    and "fst (snd (snd (invoke env m e eargs ekwargs h error s))) = error_triple x"
  using assms by (simp_all add: invoke_def Let_def)

lemma invoke_returned:
  assumes "fst (call env h (if h_event h then Some e else None) eargs ekwargs (world s)) = Returned v"
  shows "invoke env m e eargs ekwargs h error s =
     (None, v, error, (upd_event e (\<lambda>ev. ev\<lparr>ev_handler := Some h\<rparr>) s)
        \<lparr>world := snd (call env h (if h_event h then Some e else None) eargs ekwargs (world s)),
         trace := trace s @ [Called h]\<rparr>)"
  using assms by (simp add: invoke_def Let_def)

lemma truthy_error_triple [simp]: "truthy (error_triple x)"
  by (simp add: error_triple_def)

lemma run_handlers_break:
  assumes "fst (invoke env m e eargs ekwargs h error s) = None"
    and "truthy (fst (snd (invoke env m e eargs ekwargs h error s)))" and "h_filter h"
  shows "run_handlers env m e eargs ekwargs (h # hs) error s =
           (None, fst (snd (snd (invoke env m e eargs ekwargs h error s))),
            keep_value m e (fst (snd (invoke env m e eargs ekwargs h error s)))
              (snd (snd (snd (invoke env m e eargs ekwargs h error s)))))"
  using assms by (cases "invoke env m e eargs ekwargs h error s") (auto simp: Let_def)


subsection \<open>fireEvent\<close>

text \<open>C4: \<open>fireEvent\<close> takes the explicit channels if there are any, else the event's
  own channels if it has any, else the channel of the firing component, else \<open>*\<close>. It
  allocates a new value bound to the event and the manager, appends one entry
  \<open>(event, channels)\<close> to the queue of the root of the firing manager, leaves every
  other queue as it was, returns the new value, and calls no handler: what the host
  observes and the user's state are unchanged.\<close>

theorem fireEvent_enqueues_at_root:
  assumes "fireEvent m e chs s = (v, s')"
  shows "ev_channels (events s' e) =
           (if chs \<noteq> [] then chs
            else if ev_channels (events s e) \<noteq> [] then ev_channels (events s e)
            else if channel (mgrs s m) \<noteq> None then [the (channel (mgrs s m))]
            else [CStr ''*''])
       \<and> v = next_val s \<and> next_val s' = Suc (next_val s) \<and> ev_value (events s' e) = v
       \<and> vals s' v = Value e m (notify (events s e))
       \<and> (\<forall>u. u \<noteq> v \<longrightarrow> vals s' u = vals s u)
       \<and> queue (mgrs s' (root (mgrs s m))) =
           queue (mgrs s (root (mgrs s m))) @ [(e, ev_channels (events s' e))]
       \<and> (\<forall>n. n \<noteq> root (mgrs s m) \<longrightarrow> queue (mgrs s' n) = queue (mgrs s n))
       \<and> trace s' = trace s \<and> world s' = world s"
  using assms
  by (auto simp: fireEvent_def fire_channels_def fire_raw_def upd_mgr_def upd_event_def Let_def)

theorem fireEvent_enqueues_at_root_witness:
  "ev_channels (events (snd (fireEvent 1 0 [] small_tree)) 0) = [CStr ''x'']
   \<and> queue (mgrs (snd (fireEvent 1 0 [] small_tree)) 0) = [(0, [CStr ''x''])]
   \<and> queue (mgrs (snd (fireEvent 1 0 [] small_tree)) 1) = []
   \<and> fst (fireEvent 1 0 [] small_tree) = 0
   \<and> trace (snd (fireEvent 1 0 [] small_tree)) = []"
  using fireEvent_enqueues_at_root [of 1 0 "[]" small_tree
      "fst (fireEvent 1 0 [] small_tree)" "snd (fireEvent 1 0 [] small_tree)"]
  by (simp add: small_tree_def start_state_def Manager_def new_event_def)

subsection \<open>The example objects\<close>


lemma small_tree_trace [simp]: "trace small_tree = []"
  by (simp add: small_tree_def start_state_def)

lemma scripted_call [simp]:
  "call (scripted_env out) h_hi a as kw w = (out, w)"
  by (simp add: scripted_env_def idle_env_def h_hi_def)

lemma h_hi_filter [simp]: "h_filter h_hi"
  by (simp add: h_hi_def)


lemma failing_call [simp]:
  "call (failing_env x) h_hi a as kw w = (Raised x, w)"
  "call_tick (failing_env x) 7 w = (Raised x, w)"
  "iter_ticks (failing_env x) = sorted_list_of_set"
  by (simp_all add: failing_env_def idle_env_def h_hi_def)

lemma ping_state_simps [simp]:
  "next_event ping_state = 1" "next_val ping_state = 1" "events ping_state i = ping"
  "ticks (mgrs ping_state 0) = {7}" "root (mgrs ping_state 0) = 0"
  "queue (mgrs ping_state 0) = [(0, [CStr ''*''])]"
  "cache (mgrs ping_state 0) (''ping'', [CStr ''*'']) = Some [h_hi, h_lo]"
  "channel (mgrs ping_state 0) = None"
  by (simp_all add: ping_state_def Manager_def)

lemma ping_simps [simp]:
  "ev_value ping = 0" "ev_name ping = ''ping''" "ev_class ping = ''Ping''" "failure ping"
  "ev_channels ping = [CStr ''*'']" "ev_args ping = []" "ev_kwargs ping = []"
  "success ping" "alert_done ping" "waitingHandlers ping = 0"
  by (simp_all add: ping_def)

lemma interrupt_fatal [simp]: "host_fatal interrupt" "\<not> host_fatal boom"
  by (simp_all add: host_fatal_def interrupt_def boom_def)

lemma ping_resolve: "resolve env 0 0 [CStr ''*''] ping_state = Inr ([h_hi, h_lo], ping_state)"
  by (simp add: resolve_def)

subsection \<open>The filter short-circuit\<close>

text \<open>C7: when the loop of the dispatcher reaches a handler with \<open>filter=True\<close> that
  returns a truthy value, the loop ends there: the handlers after it are not called (the
  result is that of the loop over this handler alone, and the only call observed is this
  one), no exception leaves the loop, and the dispatcher goes on to \<open>_eventDone\<close>.\<close>

theorem filter_handler_skips_rest:
  assumes "fst (call env h (if h_event h then Some e else None) eargs ekwargs (world s)) = Returned v"
    and "truthy v" and "h_filter h"
  shows "run_handlers env m e eargs ekwargs (h # hs) error s =
           run_handlers env m e eargs ekwargs [h] error s
       \<and> fst (run_handlers env m e eargs ekwargs (h # hs) error s) = None
       \<and> trace (snd (snd (run_handlers env m e eargs ekwargs (h # hs) error s))) =
           trace s @ [Called h]
       \<and> (\<forall>s0 channels. resolve env m e channels s0 = Inr (h # hs, s)
            \<and> eargs = ev_args (events s0 e) \<and> ekwargs = ev_kwargs (events s0 e) \<longrightarrow>
            dispatcher env m e channels s0 =
              (None, eventDone env m e PNone
                 (snd (snd (run_handlers env m e eargs ekwargs [h] PNone s)))))"
proof -
  note r = invoke_returned [OF assms(1), of m]
  have b: "run_handlers env m e eargs ekwargs (h # ks) err s =
             (None, err, keep_value m e v
                (snd (snd (snd (invoke env m e eargs ekwargs h err s)))))" for ks err
    using run_handlers_break [of env m e eargs ekwargs h err s ks] r [of err] assms by simp
  have d: "dispatcher env m e channels s0 =
             (None, eventDone env m e PNone
                (snd (snd (run_handlers env m e eargs ekwargs [h] PNone s))))"
    if "resolve env m e channels s0 = Inr (h # hs, s)"
      and "eargs = ev_args (events s0 e)" and "ekwargs = ev_kwargs (events s0 e)"
    for s0 channels
    by (simp add: dispatcher_def that(1) that(2) [symmetric] that(3) [symmetric] b
        del: run_handlers.simps)
  have t: "trace (snd (snd (run_handlers env m e eargs ekwargs (h # hs) error s))) =
             trace s @ [Called h]"
    by (simp add: b del: run_handlers.simps)
  show ?thesis
    using d t by (simp add: b del: run_handlers.simps)
qed

theorem filter_handler_skips_rest_witness:
  "fst (run_handlers (scripted_env (Returned (PBool True))) 0 0 [] [] [h_hi, h_lo] PNone small_tree) = None
   \<and> trace (snd (snd (run_handlers (scripted_env (Returned (PBool True))) 0 0 [] [] [h_hi, h_lo] PNone small_tree))) = [Called h_hi]"
proof -
  have c: "fst (call (scripted_env (Returned (PBool True))) h_hi
              (if h_event h_hi then Some 0 else None) [] [] (world small_tree)) = Returned (PBool True)"
    by simp
  have t: "truthy (PBool True)"
    by simp
  from filter_handler_skips_rest [OF c t h_hi_filter, of 0 "[h_lo]" PNone]
  have "fst (run_handlers (scripted_env (Returned (PBool True))) 0 0 [] [] [h_hi, h_lo] PNone small_tree) = None
    \<and> trace (snd (snd (run_handlers (scripted_env (Returned (PBool True))) 0 0 [] [] [h_hi, h_lo] PNone small_tree))) =
        trace small_tree @ [Called h_hi]"
    by blast
  then show ?thesis by (simp del: run_handlers.simps)
qed

text \<open>C10: when a handler raises an exception other than \<open>KeyboardInterrupt\<close> and
  \<open>SystemExit\<close>, the local \<open>value\<close> becomes the tuple of the exception's type, its value
  and its formatted traceback, which is truthy; so if the handler has \<open>filter=True\<close> the
  handlers after it are not called, and the loop ends with that tuple as its \<open>error\<close>.\<close>

theorem raising_filter_handler_skips_rest:
  assumes "fst (call env h (if h_event h then Some e else None) eargs ekwargs (world s)) = Raised x"
    and "\<not> host_fatal x"
  shows "fst (invoke env m e eargs ekwargs h error s) = None
       \<and> fst (snd (invoke env m e eargs ekwargs h error s)) =
           PTuple [PExcType (etype x), evalue x, PList (map PStr (etraceback x))]
       \<and> truthy (fst (snd (invoke env m e eargs ekwargs h error s)))
       \<and> (h_filter h \<longrightarrow>
            run_handlers env m e eargs ekwargs (h # hs) error s =
              run_handlers env m e eargs ekwargs [h] error s
          \<and> fst (run_handlers env m e eargs ekwargs (h # hs) error s) = None
          \<and> fst (snd (run_handlers env m e eargs ekwargs (h # hs) error s)) =
              PTuple [PExcType (etype x), evalue x, PList (map PStr (etraceback x))]
          \<and> trace (snd (snd (run_handlers env m e eargs ekwargs (h # hs) error s))) =
              trace s @ [Called h])"
proof -
  note r = invoke_raised [OF assms, of m error]
  have t: "error_triple x = PTuple [PExcType (etype x), evalue x, PList (map PStr (etraceback x))]"
    by (simp add: error_triple_def)
  have b: "run_handlers env m e eargs ekwargs (h # ks) error s =
             (None, error_triple x, keep_value m e (error_triple x)
                (snd (snd (snd (invoke env m e eargs ekwargs h error s)))))"
    if "h_filter h" for ks
    using run_handlers_break [of env m e eargs ekwargs h error s ks] r that by simp
  show ?thesis
    using r t by (simp add: b del: run_handlers.simps)
qed

theorem raising_filter_handler_skips_rest_witness:
  "fst (run_handlers (scripted_env (Raised boom)) 0 0 [] [] [h_hi, h_lo] PNone small_tree) = None
   \<and> trace (snd (snd (run_handlers (scripted_env (Raised boom)) 0 0 [] [] [h_hi, h_lo] PNone small_tree))) = [Called h_hi]
   \<and> fst (snd (invoke (scripted_env (Raised boom)) 0 0 [] [] h_hi PNone small_tree)) =
       PTuple [PExcType (OtherException ''ValueError''), PStr ''boom'', PList []]
   \<and> fst (snd (run_handlers (scripted_env (Raised boom)) 0 0 [] [] [h_hi, h_lo] PNone small_tree)) =
       PTuple [PExcType (OtherException ''ValueError''), PStr ''boom'', PList []]
   \<and> truthy (fst (snd (invoke (scripted_env (Raised boom)) 0 0 [] [] h_hi PNone small_tree)))"
proof -
  have c: "fst (call (scripted_env (Raised boom)) h_hi
              (if h_event h_hi then Some 0 else None) [] [] (world small_tree)) = Raised boom"
    by simp
  have n: "\<not> host_fatal boom"
    by (simp add: host_fatal_def boom_def)
  note th = raising_filter_handler_skips_rest [OF c n, of 0 PNone "[h_lo]"]
  from th h_hi_filter
  have "fst (run_handlers (scripted_env (Raised boom)) 0 0 [] [] [h_hi, h_lo] PNone small_tree) = None
    \<and> trace (snd (snd (run_handlers (scripted_env (Raised boom)) 0 0 [] [] [h_hi, h_lo] PNone small_tree))) =
        trace small_tree @ [Called h_hi]
    \<and> fst (snd (invoke (scripted_env (Raised boom)) 0 0 [] [] h_hi PNone small_tree)) =
        PTuple [PExcType (etype boom), evalue boom, PList (map PStr (etraceback boom))]
    \<and> fst (snd (run_handlers (scripted_env (Raised boom)) 0 0 [] [] [h_hi, h_lo] PNone small_tree)) =
        PTuple [PExcType (etype boom), evalue boom, PList (map PStr (etraceback boom))]
    \<and> truthy (fst (snd (invoke (scripted_env (Raised boom)) 0 0 [] [] h_hi PNone small_tree)))"
    by blast
  then show ?thesis by (simp add: boom_def del: run_handlers.simps)
qed

subsection \<open>Exceptions of handlers and tick callables\<close>

lemma new_event_class [simp]: "ev_class (new_event env c as) = c"
  by (simp add: new_event_def)

lemma new_event_args [simp]: "ev_args (new_event env c as) = as"
  by (simp add: new_event_def)

lemma invoke_fatal:
  assumes "fst (call env h (if h_event h then Some e else None) eargs ekwargs (world s)) = Raised x"
    and "host_fatal x"
  shows "invoke env m e eargs ekwargs h error s =
     (Some x, PNone, error, (upd_event e (\<lambda>ev. ev\<lparr>ev_handler := Some h\<rparr>) s)
        \<lparr>world := snd (call env h (if h_event h then Some e else None) eargs ekwargs (world s)),
         trace := trace s @ [Called h]\<rparr>)"
  using assms by (simp add: invoke_def Let_def)

lemma invoke_Some_fatal:
  "fst (invoke env m e eargs ekwargs h error s) = Some y \<Longrightarrow> host_fatal y"
  by (auto simp: invoke_def Let_def split: outcome.splits if_splits)

lemma run_handlers_Some_fatal:
  "fst (run_handlers env m e eargs ekwargs hs error s) = Some y \<Longrightarrow> host_fatal y"
proof (induction hs arbitrary: error s)
  case Nil
  then show ?case by simp
next
  case (Cons h hs)
  obtain a v err s1 where i: "invoke env m e eargs ekwargs h error s = (a, v, err, s1)"
    by (cases "invoke env m e eargs ekwargs h error s") auto
  show ?case
  proof (cases a)
    case None
    with Cons i show ?thesis by (auto simp: Let_def split: if_splits)
  next
    case (Some z)
    with Cons.prems i have "z = y" by simp
    with Some i invoke_Some_fatal [of env m e eargs ekwargs h error s y] show ?thesis by simp
  qed
qed

lemma run_ticks_fatal:
  assumes "fst (call_tick env f (world s)) = Raised x" and "host_fatal x"
  shows "run_ticks env m (f # fs) s =
     (Some x, s\<lparr>world := snd (call_tick env f (world s)), trace := trace s @ [Ticked f]\<rparr>)"
  using assms by (simp add: Let_def)



lemma called_simps [simp]:
  "mgrs (called env e eargs ekwargs h s) = mgrs s"
  "vals (called env e eargs ekwargs h s) = vals s"
  "next_event (called env e eargs ekwargs h s) = next_event s"
  "next_val (called env e eargs ekwargs h s) = next_val s"
  "trace (called env e eargs ekwargs h s) = trace s @ [Called h]"
  "events (called env e eargs ekwargs h s) i =
     (if i = e then (events s e)\<lparr>ev_handler := Some h\<rparr> else events s i)"
  by (simp_all add: called_def)

lemma invoke_caught_state:
  assumes "fst (call env h (if h_event h then Some e else None) eargs ekwargs (world s)) = Raised x"
    and "\<not> host_fatal x"
  shows "snd (snd (snd (invoke env m e eargs ekwargs h error s))) =
     fire_new env m ''Error''
       [AVal (PExcType (etype x)), AVal (evalue x), AVal (PList (map PStr (etraceback x))), AHandler h] []
       (if failure (events s e)
        then fire_new env m (ev_class (events s e) @ ''Failure'') [AEvent e, AVal (error_triple x)]
               (ev_channels (events s e))
               (upd_val (ev_value (events s e)) (\<lambda>V. V\<lparr>errors := True\<rparr>) (called env e eargs ekwargs h s))
        else upd_val (ev_value (events s e)) (\<lambda>V. V\<lparr>errors := True\<rparr>) (called env e eargs ekwargs h s))"
  using assms by (simp add: invoke_def Let_def called_def)


lemma default_channels_cong:
  "channel (mgrs s' m) = channel (mgrs s m) \<Longrightarrow> default_channels s' m chs = default_channels s m chs"
  by (simp add: default_channels_def)

lemma default_channels_simps [simp]:
  "default_channels (fire_new env n c as chs' s) m chs = default_channels s m chs"
  "default_channels (upd_val v f s) m chs = default_channels s m chs"
  "default_channels (upd_event e g s) m chs = default_channels s m chs"
  "default_channels (called env e eargs ekwargs h s) m chs = default_channels s m chs"
  by (rule default_channels_cong, simp)+


lemma invoke_caught:
  assumes c: "fst (call env h (if h_event h then Some e else None) eargs ekwargs (world s)) = Raised x"
    and nf: "\<not> host_fatal x" and e: "e < next_event s" and v: "ev_value (events s e) < next_val s"
  shows "errors (vals (snd (snd (snd (invoke env m e eargs ekwargs h error s)))) (ev_value (events s e)))"
    and "fired_since (root (mgrs s m)) s (snd (snd (snd (invoke env m e eargs ekwargs h error s)))) =
      (if failure (events s e)
       then [(ev_class (events s e) @ ''Failure'', [AEvent e, AVal (error_triple x)],
              default_channels s m (ev_channels (events s e)))] else []) @
      [(''Error'', [AVal (PExcType (etype x)), AVal (evalue x),
          AVal (PList (map PStr (etraceback x))), AHandler h], default_channels s m [])]"
proof -
  show "errors (vals (snd (snd (snd (invoke env m e eargs ekwargs h error s)))) (ev_value (events s e)))"
    using e v by (cases "failure (events s e)") (simp_all add: invoke_caught_state [OF c nf])
  show "fired_since (root (mgrs s m)) s (snd (snd (snd (invoke env m e eargs ekwargs h error s)))) =
      (if failure (events s e)
       then [(ev_class (events s e) @ ''Failure'', [AEvent e, AVal (error_triple x)],
              default_channels s m (ev_channels (events s e)))] else []) @
      [(''Error'', [AVal (PExcType (etype x)), AVal (evalue x),
          AVal (PList (map PStr (etraceback x))), AHandler h], default_channels s m [])]"
    using e v by (cases "failure (events s e)") (simp_all add: invoke_caught_state [OF c nf] fired_since_def)
qed


lemma run_handlers_fatal:
  assumes "fst (call env h (if h_event h then Some e else None) eargs ekwargs (world s)) = Raised x"
    and "host_fatal x"
  shows "run_handlers env m e eargs ekwargs (h # hs) error s =
           (Some x, error, called env e eargs ekwargs h s)"
  using invoke_fatal [OF assms, of m error] by (simp add: called_def)

lemma dispatcher_raises:
  assumes "resolve env m e channels s0 = Inr (hs, s)"
    and "fst (run_handlers env m e (ev_args (events s0 e)) (ev_kwargs (events s0 e)) hs PNone s) = Some y"
  shows "fst (dispatcher env m e channels s0) = Some y"
  using assms
  by (cases "run_handlers env m e (ev_args (events s0 e)) (ev_kwargs (events s0 e)) hs PNone s")
     (simp add: dispatcher_def del: run_handlers.simps)

lemma tick_raises:
  assumes "fst (run_ticks env m (iter_ticks env (ticks (mgrs s m))) s) = Some y"
  shows "fst (tick env m s) = Some y"
  using assms
  by (cases "run_ticks env m (iter_ticks env (ticks (mgrs s m))) s") (simp add: tick_def)


text \<open>C5: a \<open>KeyboardInterrupt\<close> or \<open>SystemExit\<close> raised by a handler leaves the loop
  of the dispatcher and the dispatcher itself, and one raised by a tick callable leaves
  \<open>tick\<close>; in both cases no manager has changed and no event was created, so no \<open>Error\<close>
  event stands for it. No other exception leaves the loop. Any other exception of a
  handler is caught: the \<open>errors\<close> flag of the event's value is set, and the events fired
  are \<open><Name>Failure(event, error)\<close> on the event's channels exactly when
  \<open>event.failure\<close> is set, followed by \<open>Error(type, value, traceback, handler)\<close>.\<close>

theorem handler_exceptions:
  "(fst (call env h (if h_event h then Some e else None) eargs ekwargs (world s)) = Raised x
      \<and> host_fatal x \<longrightarrow>
        fst (run_handlers env m e eargs ekwargs (h # hs) error s) = Some x
      \<and> mgrs (snd (snd (run_handlers env m e eargs ekwargs (h # hs) error s))) = mgrs s
      \<and> next_event (snd (snd (run_handlers env m e eargs ekwargs (h # hs) error s))) = next_event s)
   \<and> (fst (run_handlers env m e eargs ekwargs hs0 error s) = Some y \<longrightarrow> host_fatal y)
   \<and> (resolve env m e channels s0 = Inr (hs0, s)
      \<and> fst (run_handlers env m e (ev_args (events s0 e)) (ev_kwargs (events s0 e)) hs0 PNone s) = Some y
      \<longrightarrow> fst (dispatcher env m e channels s0) = Some y)
   \<and> (fst (call env h (if h_event h then Some e else None) eargs ekwargs (world s)) = Raised x
      \<and> \<not> host_fatal x \<and> e < next_event s \<and> ev_value (events s e) < next_val s \<longrightarrow>
        fst (invoke env m e eargs ekwargs h error s) = None
      \<and> errors (vals (snd (snd (snd (invoke env m e eargs ekwargs h error s)))) (ev_value (events s e)))
      \<and> fired_since (root (mgrs s m)) s (snd (snd (snd (invoke env m e eargs ekwargs h error s)))) =
          (if failure (events s e)
           then [(ev_class (events s e) @ ''Failure'', [AEvent e, AVal (error_triple x)],
                  default_channels s m (ev_channels (events s e)))] else []) @
          [(''Error'', [AVal (PExcType (etype x)), AVal (evalue x),
              AVal (PList (map PStr (etraceback x))), AHandler h], default_channels s m [])])
   \<and> (fst (call_tick env f (world s)) = Raised x \<and> host_fatal x \<longrightarrow>
        fst (run_ticks env m (f # fs) s) = Some x
      \<and> mgrs (snd (run_ticks env m (f # fs) s)) = mgrs s
      \<and> next_event (snd (run_ticks env m (f # fs) s)) = next_event s)
   \<and> (fst (run_ticks env m (iter_ticks env (ticks (mgrs s m))) s) = Some y \<longrightarrow>
        fst (tick env m s) = Some y)"
proof (intro conjI impI; (elim conjE)?)
  assume "fst (call env h (if h_event h then Some e else None) eargs ekwargs (world s)) = Raised x"
    and "host_fatal x"
  note r = run_handlers_fatal [OF this, of m hs error]
  show "fst (run_handlers env m e eargs ekwargs (h # hs) error s) = Some x"
    "mgrs (snd (snd (run_handlers env m e eargs ekwargs (h # hs) error s))) = mgrs s"
    "next_event (snd (snd (run_handlers env m e eargs ekwargs (h # hs) error s))) = next_event s"
    by (simp_all add: r del: run_handlers.simps)
next
  assume "fst (run_handlers env m e eargs ekwargs hs0 error s) = Some y"
  then show "host_fatal y" by (rule run_handlers_Some_fatal)
next
  assume "resolve env m e channels s0 = Inr (hs0, s)"
    and "fst (run_handlers env m e (ev_args (events s0 e)) (ev_kwargs (events s0 e)) hs0 PNone s) = Some y"
  then show "fst (dispatcher env m e channels s0) = Some y" by (rule dispatcher_raises)
next
  assume c: "fst (call env h (if h_event h then Some e else None) eargs ekwargs (world s)) = Raised x"
    and n: "\<not> host_fatal x" and e: "e < next_event s" and v: "ev_value (events s e) < next_val s"
  show "fst (invoke env m e eargs ekwargs h error s) = None"
    by (rule invoke_raised (1) [OF c n])
  show "errors (vals (snd (snd (snd (invoke env m e eargs ekwargs h error s)))) (ev_value (events s e)))"
    by (rule invoke_caught (1) [OF c n e v])
  show "fired_since (root (mgrs s m)) s (snd (snd (snd (invoke env m e eargs ekwargs h error s)))) =
          (if failure (events s e)
           then [(ev_class (events s e) @ ''Failure'', [AEvent e, AVal (error_triple x)],
                  default_channels s m (ev_channels (events s e)))] else []) @
          [(''Error'', [AVal (PExcType (etype x)), AVal (evalue x),
              AVal (PList (map PStr (etraceback x))), AHandler h], default_channels s m [])]"
    by (rule invoke_caught (2) [OF c n e v])
next
  assume "fst (call_tick env f (world s)) = Raised x" and "host_fatal x"
  note r = run_ticks_fatal [OF this, of m fs]
  show "fst (run_ticks env m (f # fs) s) = Some x"
    "mgrs (snd (run_ticks env m (f # fs) s)) = mgrs s"
    "next_event (snd (run_ticks env m (f # fs) s)) = next_event s"
    by (simp_all add: r del: run_ticks.simps)
next
  assume "fst (run_ticks env m (iter_ticks env (ticks (mgrs s m))) s) = Some y"
  then show "fst (tick env m s) = Some y" by (rule tick_raises)
qed

theorem handler_exceptions_witness:
  "fst (run_handlers (failing_env interrupt) 0 0 [] [] [h_hi, h_lo] PNone ping_state) = Some interrupt
   \<and> host_fatal interrupt
   \<and> fst (dispatcher (failing_env interrupt) 0 0 [CStr ''*''] ping_state) = Some interrupt
   \<and> fired_since 0 ping_state (snd (snd (snd (invoke (failing_env boom) 0 0 [] [] h_hi PNone ping_state)))) =
        [(''PingFailure'', [AEvent 0, AVal (error_triple boom)], [CStr ''*'']),
         (''Error'', [AVal (PExcType (etype boom)), AVal (evalue boom),
             AVal (PList (map PStr (etraceback boom))), AHandler h_hi], [CStr ''*''])]
   \<and> fst (run_ticks (failing_env interrupt) 0 [7] ping_state) = Some interrupt
   \<and> fst (tick (failing_env interrupt) 0 ping_state) = Some interrupt"
proof -
  note A = handler_exceptions [where env = "failing_env interrupt" and h = h_hi and e = 0
      and eargs = "[]" and ekwargs = "[]" and s = ping_state and x = interrupt and m = 0
      and hs = "[h_lo]" and ?hs0.0 = "[h_hi, h_lo]" and error = PNone and y = interrupt and channels = "[CStr ''*'']"
      and ?s0.0 = ping_state and f = 7 and fs = "[]"]
  note B = handler_exceptions [where env = "failing_env boom" and h = h_hi and e = 0
      and eargs = "[]" and ekwargs = "[]" and s = ping_state and x = boom and m = 0
      and error = PNone]
  have 1: "fst (run_handlers (failing_env interrupt) 0 0 [] [] [h_hi, h_lo] PNone ping_state) = Some interrupt"
    using A [THEN conjunct1] by (simp del: run_handlers.simps)
  have 2: "host_fatal interrupt"
    using A [THEN conjunct2, THEN conjunct1] 1 by blast
  have 3: "fst (dispatcher (failing_env interrupt) 0 0 [CStr ''*''] ping_state) = Some interrupt"
    using A [THEN conjunct2, THEN conjunct2, THEN conjunct1] 1 ping_resolve
    by (simp del: run_handlers.simps)
  have 4: "fired_since 0 ping_state (snd (snd (snd (invoke (failing_env boom) 0 0 [] [] h_hi PNone ping_state)))) =
        [(''PingFailure'', [AEvent 0, AVal (error_triple boom)], [CStr ''*'']),
         (''Error'', [AVal (PExcType (etype boom)), AVal (evalue boom),
             AVal (PList (map PStr (etraceback boom))), AHandler h_hi], [CStr ''*''])]"
    using B [THEN conjunct2, THEN conjunct2, THEN conjunct2, THEN conjunct1]
    by (simp add: default_channels_def)
  have 5: "fst (run_ticks (failing_env interrupt) 0 [7] ping_state) = Some interrupt"
    using A [THEN conjunct2, THEN conjunct2, THEN conjunct2, THEN conjunct2, THEN conjunct1]
    by (simp del: run_ticks.simps)
  have 6: "fst (tick (failing_env interrupt) 0 ping_state) = Some interrupt"
    using A [THEN conjunct2, THEN conjunct2, THEN conjunct2, THEN conjunct2, THEN conjunct2] 5
    by (simp del: run_ticks.simps)
  from 1 2 3 4 5 6 show ?thesis by blast
qed

subsection \<open>The completion gate\<close>


lemma eventDone_fired:
  assumes "e < next_event s" "waitingHandlers (events s e) = 0"
  shows "fired_since (root (mgrs s m)) s (eventDone env m e err s) =
     (if alert_done (events s e)
      then [(ev_class (events s e) @ ''Done'', [AEvent e, AValue (ev_value (events s e))],
             default_channels s m (ev_channels (events s e)))] else []) @
     (if err = PNone \<and> success (events s e)
      then [(ev_class (events s e) @ ''Success'', [AEvent e, AValue (ev_value (events s e))],
             default_channels s m (ev_channels (events s e)))] else [])"
proof (cases "alert_done (events s e)")
  case True
  with assms show ?thesis
    by (cases "err = PNone \<and> success (events s e)") (simp_all add: eventDone_def fired_since_def Let_def)
next
  case False
  with assms show ?thesis
    by (cases "err = PNone \<and> success (events s e)") (simp_all add: eventDone_def fired_since_def Let_def)
qed

lemma invoke_error_kept:
  "invoke env m e eargs ekwargs h error s = (None, v, err, s1) \<Longrightarrow> error \<noteq> PNone \<Longrightarrow> err \<noteq> PNone"
  by (auto simp: invoke_def Let_def error_triple_def split: outcome.splits if_splits)

lemma run_handlers_error_kept:
  "run_handlers env m e eargs ekwargs hs error s = (None, err, s') \<Longrightarrow> error \<noteq> PNone \<Longrightarrow> err \<noteq> PNone"
proof (induction hs arbitrary: error s)
  case Nil
  then show ?case by simp
next
  case (Cons h hs)
  obtain a v er s1 where i: "invoke env m e eargs ekwargs h error s = (a, v, er, s1)"
    by (cases "invoke env m e eargs ekwargs h error s") auto
  show ?case
  proof (cases a)
    case None
    with i Cons.prems(2) have k: "er \<noteq> PNone" using invoke_error_kept by blast
    show ?thesis
    proof (cases "truthy v \<and> h_filter h")
      case True
      with Cons.prems(1) i None k show ?thesis by (simp add: Let_def)
    next
      case False
      with Cons.prems(1) i None
      have "run_handlers env m e eargs ekwargs hs er (keep_value m e v s1) = (None, err, s')"
        by (simp add: Let_def)
      from Cons.IH [OF this k] show ?thesis .
    qed
  next
    case (Some z)
    with Cons.prems(1) i show ?thesis by simp
  qed
qed

lemma run_handlers_error_recorded:
  assumes c: "fst (call env h (if h_event h then Some e else None) eargs ekwargs (world s)) = Raised x"
    and n: "\<not> host_fatal x"
    and r: "run_handlers env m e eargs ekwargs (h # hs) error s = (None, err, s')"
  shows "err \<noteq> PNone"
proof -
  obtain a v er s1 where i: "invoke env m e eargs ekwargs h error s = (a, v, er, s1)"
    by (cases "invoke env m e eargs ekwargs h error s") auto
  from invoke_raised [OF c n, of m error] i
  have a: "a = None" and er: "er = error_triple x" by simp_all
  then have k: "er \<noteq> PNone" by (simp add: error_triple_def)
  show ?thesis
  proof (cases "truthy v \<and> h_filter h")
    case True
    with r i a k show ?thesis by (simp add: Let_def)
  next
    case False
    with r i a
    have "run_handlers env m e eargs ekwargs hs er (keep_value m e v s1) = (None, err, s')"
      by (simp add: Let_def)
    with k show ?thesis using run_handlers_error_kept by blast
  qed
qed

lemma dispatcher_done:
  assumes "resolve env m e channels s0 = Inr (hs, s)"
    and "run_handlers env m e (ev_args (events s0 e)) (ev_kwargs (events s0 e)) hs PNone s = (None, err, s')"
  shows "dispatcher env m e channels s0 = (None, eventDone env m e err s')"
  using assms by (simp add: dispatcher_def del: run_handlers.simps)


lemma error_triple_simps [simp]:
  "\<not> is_generator (error_triple x)" "error_triple x \<noteq> PNone"
  by (simp_all add: error_triple_def)

lemma task_set_mgrs [simp]:
  "mgrs (registerTask m g s) n =
     (if n = m then (mgrs s m)\<lparr>tasks := insert g (tasks (mgrs s m))\<rparr> else mgrs s n)"
  "mgrs (unregisterTask m g s) n =
     (if n = m then (mgrs s m)\<lparr>tasks := tasks (mgrs s m) - {g}\<rparr> else mgrs s n)"
  by (auto simp: registerTask_def unregisterTask_def)

lemma late_env_simps [simp]:
  "call late_env h_err a as kw w = (Raised boom, w)"
  "call late_env h_gen a as kw w = (Returned (PGen 9), w)"
  "next_step late_env g w = (Exhausted, w)"
  by (simp_all add: late_env_def idle_env_def h_err_def h_gen_def)

lemma late_state_simps [simp]:
  "next_event late_state = 1" "next_val late_state = 1" "events late_state i = ping"
  "root (mgrs late_state 0) = 0" "trace late_state = []" "world late_state = ()"
  "queue (mgrs late_state 0) = [(0, [CStr ''*''])]"
  "tasks (mgrs late_state 0) = {}"
  "cache (mgrs late_state 0) (''ping'', [CStr ''*'']) = Some [h_err, h_gen]"
  "channel (mgrs late_state 0) = None"
  "vals late_state 0 = Value 0 0 False"
  by (simp_all add: late_state_def ping_state_def Manager_def)

lemma h_flags [simp]: "\<not> h_filter h_err" "\<not> h_filter h_gen" "\<not> h_event h_err" "\<not> h_event h_gen"
  by (simp_all add: h_err_def h_gen_def)

lemma late_dispatch:
  "fst (dispatcher late_env 0 0 [CStr ''*''] late_state) = None"
  "errors (vals (snd (dispatcher late_env 0 0 [CStr ''*''] late_state)) 0)"
  "waitingHandlers (events (snd (dispatcher late_env 0 0 [CStr ''*''] late_state)) 0) = 1"
  by (simp_all add: dispatcher_def resolve_def invoke_def keep_value_def eventDone_def Let_def Value_def)


lemma late_fired:
  "fired_since 0 late_state late_run =
     [(''PingFailure'', [AEvent 0, AVal (error_triple boom)], [CStr ''*'']),
      (''Error'', [AVal (PExcType (etype boom)), AVal (evalue boom),
          AVal (PList (map PStr (etraceback boom))), AHandler h_err], [CStr ''*'']),
      (''PingDone'', [AEvent 0, AValue 0], [CStr ''*'']),
      (''PingSuccess'', [AEvent 0, AValue 0], [CStr ''*''])]"
  by (simp add: late_run_def dispatcher_def resolve_def invoke_def keep_value_def eventDone_def
      task_exhausted_def fired_since_def default_channels_def Let_def Value_def)



text \<open>The gate itself: \<open>_eventDone\<close> does nothing while \<open>waitingHandlers\<close> is not
  zero. When it is zero, it fires \<open><Name>Done(event, value)\<close> exactly when \<open>alert_done\<close>
  is set, and then \<open><Name>Success(event, value)\<close> exactly when the \<open>error\<close> argument it
  was called with is \<open>None\<close> and \<open>success\<close> is set. The dispatcher calls it with its local
  \<open>error\<close>, which is not \<open>None\<close> once a handler exception was caught.\<close>

lemma eventDone_gate:
  "(waitingHandlers (events s e) \<noteq> 0 \<longrightarrow> eventDone env m e err s = s)
   \<and> (waitingHandlers (events s e) = 0 \<and> e < next_event s \<longrightarrow>
        fired_since (root (mgrs s m)) s (eventDone env m e err s) =
          (if alert_done (events s e)
           then [(ev_class (events s e) @ ''Done'', [AEvent e, AValue (ev_value (events s e))],
                  default_channels s m (ev_channels (events s e)))] else []) @
          (if err = PNone \<and> success (events s e)
           then [(ev_class (events s e) @ ''Success'', [AEvent e, AValue (ev_value (events s e))],
                  default_channels s m (ev_channels (events s e)))] else []))
   \<and> (resolve env m e channels s0 = Inr (hs0, s1)
      \<and> run_handlers env m e (ev_args (events s0 e)) (ev_kwargs (events s0 e)) hs0 PNone s1 =
          (None, err, s2)
      \<longrightarrow> dispatcher env m e channels s0 = (None, eventDone env m e err s2))
   \<and> (fst (call env h (if h_event h then Some e else None) eargs ekwargs (world s3)) = Raised x
      \<and> \<not> host_fatal x
      \<and> run_handlers env m e eargs ekwargs (h # hs) error s3 = (None, err', s4)
      \<longrightarrow> err' \<noteq> PNone)"
proof (intro conjI impI; (elim conjE)?)
  assume "waitingHandlers (events s e) \<noteq> 0"
  then show "eventDone env m e err s = s" by (rule eventDone_waiting)
next
  assume "waitingHandlers (events s e) = 0" and "e < next_event s"
  then show "fired_since (root (mgrs s m)) s (eventDone env m e err s) =
          (if alert_done (events s e)
           then [(ev_class (events s e) @ ''Done'', [AEvent e, AValue (ev_value (events s e))],
                  default_channels s m (ev_channels (events s e)))] else []) @
          (if err = PNone \<and> success (events s e)
           then [(ev_class (events s e) @ ''Success'', [AEvent e, AValue (ev_value (events s e))],
                  default_channels s m (ev_channels (events s e)))] else [])"
    using eventDone_fired by blast
next
  assume "resolve env m e channels s0 = Inr (hs0, s1)"
    and "run_handlers env m e (ev_args (events s0 e)) (ev_kwargs (events s0 e)) hs0 PNone s1 =
          (None, err, s2)"
  then show "dispatcher env m e channels s0 = (None, eventDone env m e err s2)"
    by (rule dispatcher_done)
next
  assume "fst (call env h (if h_event h then Some e else None) eargs ekwargs (world s3)) = Raised x"
    and "\<not> host_fatal x"
    and "run_handlers env m e eargs ekwargs (h # hs) error s3 = (None, err', s4)"
  then show "err' \<noteq> PNone" by (rule run_handlers_error_recorded)
qed

lemma late_loop:
  "fst (run_handlers late_env 0 0 [] [] [h_err, h_gen] PNone late_state) = None"
  by (simp add: invoke_def keep_value_def Let_def)

lemma late_resolve: "resolve late_env 0 0 [CStr ''*''] late_state = Inr ([h_err, h_gen], late_state)"
  by (simp add: resolve_def)

lemma eventDone_gate_example:
  "eventDone late_env 0 0 PNone (snd (dispatcher late_env 0 0 [CStr ''*''] late_state)) =
     snd (dispatcher late_env 0 0 [CStr ''*''] late_state)
   \<and> fired_since 0 ping_state (eventDone idle_env 0 0 PNone ping_state) =
       [(''PingDone'', [AEvent 0, AValue 0], [CStr ''*'']),
        (''PingSuccess'', [AEvent 0, AValue 0], [CStr ''*''])]
   \<and> fired_since 0 ping_state (eventDone idle_env 0 0 (error_triple boom) ping_state) =
       [(''PingDone'', [AEvent 0, AValue 0], [CStr ''*''])]
   \<and> dispatcher late_env 0 0 [CStr ''*''] late_state =
       (None, eventDone late_env 0 0
          (fst (snd (run_handlers late_env 0 0 [] [] [h_err, h_gen] PNone late_state)))
          (snd (snd (run_handlers late_env 0 0 [] [] [h_err, h_gen] PNone late_state))))
   \<and> fst (snd (run_handlers late_env 0 0 [] [] [h_err, h_gen] PNone late_state)) \<noteq> PNone"
proof -
  have r: "run_handlers late_env 0 0 [] [] [h_err, h_gen] PNone late_state =
      (None, fst (snd (run_handlers late_env 0 0 [] [] [h_err, h_gen] PNone late_state)),
       snd (snd (run_handlers late_env 0 0 [] [] [h_err, h_gen] PNone late_state)))"
    using late_loop by (metis prod.collapse)
  have 1: "eventDone late_env 0 0 PNone (snd (dispatcher late_env 0 0 [CStr ''*''] late_state)) =
     snd (dispatcher late_env 0 0 [CStr ''*''] late_state)"
    using eventDone_gate [where s = "snd (dispatcher late_env 0 0 [CStr ''*''] late_state)"
        and e = 0 and env = late_env and m = 0 and err = PNone, THEN conjunct1]
      late_dispatch (3) by simp
  have 2: "fired_since 0 ping_state (eventDone idle_env 0 0 PNone ping_state) =
       [(''PingDone'', [AEvent 0, AValue 0], [CStr ''*'']),
        (''PingSuccess'', [AEvent 0, AValue 0], [CStr ''*''])]"
    using eventDone_gate [where s = ping_state and e = 0 and env = idle_env and m = 0
        and err = PNone, THEN conjunct2, THEN conjunct1]
    by (simp add: default_channels_def)
  have 3: "fired_since 0 ping_state (eventDone idle_env 0 0 (error_triple boom) ping_state) =
       [(''PingDone'', [AEvent 0, AValue 0], [CStr ''*''])]"
    using eventDone_gate [where s = ping_state and e = 0 and env = idle_env and m = 0
        and err = "error_triple boom", THEN conjunct2, THEN conjunct1]
    by (simp add: default_channels_def)
  note G = eventDone_gate [where env = late_env and m = 0 and e = 0 and channels = "[CStr ''*'']"
      and ?s0.0 = late_state and ?hs0.0 = "[h_err, h_gen]" and ?s1.0 = late_state
      and err = "fst (snd (run_handlers late_env 0 0 [] [] [h_err, h_gen] PNone late_state))"
      and ?s2.0 = "snd (snd (run_handlers late_env 0 0 [] [] [h_err, h_gen] PNone late_state))"
      and h = h_err and eargs = "[]" and ekwargs = "[]" and ?s3.0 = late_state and x = boom
      and hs = "[h_gen]" and error = PNone
      and err' = "fst (snd (run_handlers late_env 0 0 [] [] [h_err, h_gen] PNone late_state))"
      and ?s4.0 = "snd (snd (run_handlers late_env 0 0 [] [] [h_err, h_gen] PNone late_state))"]
  have 4: "dispatcher late_env 0 0 [CStr ''*''] late_state =
       (None, eventDone late_env 0 0
          (fst (snd (run_handlers late_env 0 0 [] [] [h_err, h_gen] PNone late_state)))
          (snd (snd (run_handlers late_env 0 0 [] [] [h_err, h_gen] PNone late_state))))"
    using G [THEN conjunct2, THEN conjunct2, THEN conjunct1] late_resolve r
    by (simp del: run_handlers.simps)
  have 5: "fst (snd (run_handlers late_env 0 0 [] [] [h_err, h_gen] PNone late_state)) \<noteq> PNone"
    using G [THEN conjunct2, THEN conjunct2, THEN conjunct2] r
    by (simp del: run_handlers.simps)
  from 1 2 3 4 5 show ?thesis by blast
qed

lemma late_dispatch_fired:
  "fired_since 0 late_state (snd (dispatcher late_env 0 0 [CStr ''*''] late_state)) =
     [(''PingFailure'', [AEvent 0, AVal (error_triple boom)], [CStr ''*'']),
      (''Error'', [AVal (PExcType (etype boom)), AVal (evalue boom),
          AVal (PList (map PStr (etraceback boom))), AHandler h_err], [CStr ''*''])]"
  "tasks (mgrs (snd (dispatcher late_env 0 0 [CStr ''*''] late_state)) 0) = {Task2 0 9}"
  by (simp_all add: dispatcher_def resolve_def invoke_def keep_value_def eventDone_def
      fired_since_def default_channels_def Let_def Value_def)

lemma late_errors: "errors (vals late_run 0)"
  by (simp add: late_run_def dispatcher_def resolve_def invoke_def keep_value_def eventDone_def
      task_exhausted_def Let_def Value_def)

lemma failing_dispatch_fired:
  "fired_since 0 ping_state (snd (dispatcher (failing_env boom) 0 0 [CStr ''*''] ping_state)) =
     [(''PingFailure'', [AEvent 0, AVal (error_triple boom)], [CStr ''*'']),
      (''Error'', [AVal (PExcType (etype boom)), AVal (evalue boom),
          AVal (PList (map PStr (etraceback boom))), AHandler h_hi], [CStr ''*'']),
      (''PingDone'', [AEvent 0, AValue 0], [CStr ''*''])]"
  by (simp add: dispatcher_def resolve_def invoke_def keep_value_def eventDone_def
      fired_since_def default_channels_def Let_def Value_def)

text \<open>C2: \<open>Success\<close> is fired for an event whose dispatch recorded an error. The
  dispatcher passes the error it caught to \<open>_eventDone\<close>, which then fires no \<open>Success\<close>;
  \<open>processTask\<close> calls \<open>_eventDone(event)\<close> without an error when the last task of the
  event ends. In the run below a handler of the event raises and another returns a
  generator: the dispatch sets the \<open>errors\<close> flag, fires \<open>PingFailure\<close> and \<open>Error\<close> and
  registers the task; when the generator is exhausted, \<open>PingDone\<close> and \<open>PingSuccess\<close> are
  fired, the \<open>errors\<close> flag still set. In the last run the same exception is raised with
  no task outstanding, and the dispatcher fires \<open>PingDone\<close> and no \<open>PingSuccess\<close>.\<close>

theorem success_after_error:
  "fst (dispatcher late_env 0 0 [CStr ''*''] late_state) = None
   \<and> errors (vals (snd (dispatcher late_env 0 0 [CStr ''*''] late_state)) 0)
   \<and> fired_since 0 late_state (snd (dispatcher late_env 0 0 [CStr ''*''] late_state)) =
     [(''PingFailure'', [AEvent 0, AVal (error_triple boom)], [CStr ''*'']),
      (''Error'', [AVal (PExcType (etype boom)), AVal (evalue boom),
          AVal (PList (map PStr (etraceback boom))), AHandler h_err], [CStr ''*''])]
   \<and> tasks (mgrs (snd (dispatcher late_env 0 0 [CStr ''*''] late_state)) 0) = {Task2 0 9}
   \<and> late_run = snd (processTask late_env 1 0 0 9 None
        (snd (dispatcher late_env 0 0 [CStr ''*''] late_state)))
   \<and> errors (vals late_run 0)
   \<and> fired_since 0 late_state late_run =
     [(''PingFailure'', [AEvent 0, AVal (error_triple boom)], [CStr ''*'']),
      (''Error'', [AVal (PExcType (etype boom)), AVal (evalue boom),
          AVal (PList (map PStr (etraceback boom))), AHandler h_err], [CStr ''*'']),
      (''PingDone'', [AEvent 0, AValue 0], [CStr ''*'']),
      (''PingSuccess'', [AEvent 0, AValue 0], [CStr ''*''])]
   \<and> fired_since 0 ping_state (snd (dispatcher (failing_env boom) 0 0 [CStr ''*''] ping_state)) =
     [(''PingFailure'', [AEvent 0, AVal (error_triple boom)], [CStr ''*'']),
      (''Error'', [AVal (PExcType (etype boom)), AVal (evalue boom),
          AVal (PList (map PStr (etraceback boom))), AHandler h_hi], [CStr ''*'']),
      (''PingDone'', [AEvent 0, AValue 0], [CStr ''*''])]"
  using late_dispatch (1,2) late_dispatch_fired late_run_def late_errors late_fired
    failing_dispatch_fired
  by blast

subsection \<open>tick\<close>


lemma ticking_state_simps [simp]:
  "ticks (mgrs ticking_state 0) = {7}" "tasks (mgrs ticking_state 0) = {}"
  "queue (mgrs ticking_state 0) = []" "trace ticking_state = []" "world ticking_state = ()"
  by (simp_all add: ticking_state_def start_state_def Manager_def)

lemma idle_env_simps [simp]:
  "call_tick idle_env f w = (Returned (), w)" "iter_ticks idle_env = sorted_list_of_set"
  "iter_tasks idle_env T = []"
  by (simp_all add: idle_env_def)


text \<open>C3: \<open>tick\<close> calls the tick callables, then advances the tasks, then flushes the
  queue or sleeps. The test before \<open>sleep(TIMEOUT)\<close> is \<open>if self\<close>, the length of the
  manager's queue, and does not look at the tick set: on a manager with the tick
  callable 7, no task and an empty queue, \<open>tick\<close> calls 7 and then sleeps. The claim, and
  the comment on \<open>TIMEOUT\<close> (the timeout is for when there are no tick functions to
  process), say it does not sleep there.\<close>

theorem tick_sleeps_beside_tick_callables:
  "ticks (mgrs ticking_state 0) = {7}
   \<and> queue (mgrs ticking_state 0) = []
   \<and> fst (tick idle_env 0 ticking_state) = None
   \<and> trace (snd (tick idle_env 0 ticking_state)) = [Ticked 7, Slept]"
  by (simp add: tick_def Let_def)

subsection \<open>The order of the handlers\<close>


lemma sorted_reverse_descending: "sorted_wrt (\<lambda>a b. key b \<le> key a) (sorted_reverse key xs)"
proof -
  have "sorted (map key (sort_key key (rev xs)))" by (rule sorted_sort_key)
  then have "sorted_wrt (\<lambda>a b. key a \<le> key b) (sort_key key (rev xs))"
    by (simp add: sorted_map)
  then show ?thesis
    by (simp add: sorted_reverse_def sorted_wrt_rev)
qed

lemma sorted_reverse_mset [simp]: "mset (sorted_reverse key xs) = mset xs"
  by (simp add: sorted_reverse_def)

lemma sorted_reverse_stable:
  "filter (\<lambda>x. key x = k) (sorted_reverse key xs) = filter (\<lambda>x. key x = k) xs"
  by (simp add: sorted_reverse_def rev_filter [symmetric] sort_key_stable)

lemma resolve_trace: "resolve env m e channels s = Inr (hs, s1) \<Longrightarrow> trace s1 = trace s"
  by (auto simp: resolve_def Let_def split: option.splits sum.splits)

lemma resolve_miss:
  assumes "cache (mgrs s m) (ev_name (events s e), channels) = None"
    and "chain_handlers env s m (ev_name (events s e)) channels = Inr c"
  shows "resolve env m e channels s =
     Inr (sorted_reverse sortkey c,
          upd_mgr m (\<lambda>M. M\<lparr>cache := (cache M)((ev_name (events s e), channels) \<mapsto>
             sorted_reverse sortkey c)\<rparr>) s)"
  using assms by (simp add: resolve_def Let_def)

lemma resolve_sorted:
  assumes "cache_sorted s m" and "resolve env m e channels s = Inr (hs, s1)"
  shows "descending hs" and "cache_sorted s1 m"
  using assms
  by (auto simp: resolve_def Let_def cache_sorted_def descending_def sorted_reverse_descending
      split: option.splits sum.splits if_splits)

lemma run_handlers_calls:
  "\<exists>k\<le>length hs. trace (snd (snd (run_handlers env m e eargs ekwargs hs error s))) =
         trace s @ map Called (take k hs)
       \<and> (hs \<noteq> [] \<longrightarrow> 0 < k)
       \<and> (k < length hs \<longrightarrow> fst (run_handlers env m e eargs ekwargs hs error s) \<noteq> None
                              \<or> h_filter (hs ! (k - 1)))"
proof (induction hs arbitrary: error s)
  case Nil
  then show ?case by simp
next
  case (Cons h hs)
  obtain a v er s1 where i: "invoke env m e eargs ekwargs h error s = (a, v, er, s1)"
    by (cases "invoke env m e eargs ekwargs h error s") auto
  have t1: "trace s1 = trace s @ [Called h]"
    using invoke_trace [of env m e eargs ekwargs h error s] i by simp
  show ?case
  proof (cases "a = None \<and> \<not> (truthy v \<and> h_filter h)")
    case True
    then have a: "a = None" and nb: "\<not> (truthy v \<and> h_filter h)" by blast+
    have eq: "run_handlers env m e eargs ekwargs (h # hs) error s =
        run_handlers env m e eargs ekwargs hs er (keep_value m e v s1)"
      using i a nb by (auto simp: Let_def)
    from Cons.IH [of er "keep_value m e v s1"] obtain k where
      k: "k \<le> length hs"
      "trace (snd (snd (run_handlers env m e eargs ekwargs hs er (keep_value m e v s1)))) =
         trace (keep_value m e v s1) @ map Called (take k hs)"
      "hs \<noteq> [] \<longrightarrow> 0 < k"
      "k < length hs \<longrightarrow> fst (run_handlers env m e eargs ekwargs hs er (keep_value m e v s1)) \<noteq> None
          \<or> h_filter (hs ! (k - 1))"
      by blast
    have 1: "Suc k \<le> length (h # hs)" using k(1) by simp
    have 2: "trace (snd (snd (run_handlers env m e eargs ekwargs (h # hs) error s))) =
         trace s @ map Called (take (Suc k) (h # hs))"
      using k(2) t1 by (simp add: eq del: run_handlers.simps)
    have 3: "Suc k < length (h # hs) \<longrightarrow>
        fst (run_handlers env m e eargs ekwargs (h # hs) error s) \<noteq> None
          \<or> h_filter ((h # hs) ! (Suc k - 1))"
    proof
      assume "Suc k < length (h # hs)"
      then have lt: "k < length hs" by simp
      then have "hs \<noteq> []" by auto
      with k(3) have pos: "0 < k" by blast
      then have "(h # hs) ! (Suc k - 1) = hs ! (k - 1)" by (cases k) simp_all
      with k(4) lt show "fst (run_handlers env m e eargs ekwargs (h # hs) error s) \<noteq> None
          \<or> h_filter ((h # hs) ! (Suc k - 1))"
        by (simp add: eq del: run_handlers.simps)
    qed
    from 1 2 3 show ?thesis by (intro exI [of _ "Suc k"]) blast
  next
    case False
    have 2: "trace (snd (snd (run_handlers env m e eargs ekwargs (h # hs) error s))) =
         trace s @ map Called (take (Suc 0) (h # hs))"
      and 3: "fst (run_handlers env m e eargs ekwargs (h # hs) error s) \<noteq> None \<or> h_filter h"
    proof -
      show "trace (snd (snd (run_handlers env m e eargs ekwargs (h # hs) error s))) =
         trace s @ map Called (take (Suc 0) (h # hs))"
      proof (cases a)
        case None
        with False have "truthy v \<and> h_filter h" by blast
        with i None t1 show ?thesis by (simp add: Let_def)
      next
        case (Some z)
        with i t1 show ?thesis by simp
      qed
      show "fst (run_handlers env m e eargs ekwargs (h # hs) error s) \<noteq> None \<or> h_filter h"
      proof (cases a)
        case None
        with False have "truthy v \<and> h_filter h" by blast
        then show ?thesis by blast
      next
        case (Some z)
        with i show ?thesis by simp
      qed
    qed
    have "Suc 0 \<le> length (h # hs)" by simp
    moreover have "Suc 0 < length (h # hs) \<longrightarrow>
        fst (run_handlers env m e eargs ekwargs (h # hs) error s) \<noteq> None
          \<or> h_filter ((h # hs) ! (Suc 0 - 1))"
      using 3 by simp
    ultimately show ?thesis using 2 by (intro exI [of _ "Suc 0"]) blast
  qed
qed

lemma run_handlers_all:
  assumes "\<forall>h\<in>set hs. \<forall>w.
      (case fst (call env h (if h_event h then Some e else None) eargs ekwargs w) of
         Returned v \<Rightarrow> \<not> (truthy v \<and> h_filter h)
       | Raised x \<Rightarrow> \<not> host_fatal x \<and> \<not> h_filter h)"
  shows "fst (run_handlers env m e eargs ekwargs hs error s) = None
       \<and> trace (snd (snd (run_handlers env m e eargs ekwargs hs error s))) =
           trace s @ map Called hs"
  using assms
proof (induction hs arbitrary: error s)
  case Nil
  then show ?case by simp
next
  case (Cons h hs)
  obtain a v er s1 where i: "invoke env m e eargs ekwargs h error s = (a, v, er, s1)"
    by (cases "invoke env m e eargs ekwargs h error s") auto
  have t1: "trace s1 = trace s @ [Called h]"
    using invoke_trace [of env m e eargs ekwargs h error s] i by simp
  from Cons.prems have p: "case fst (call env h (if h_event h then Some e else None) eargs ekwargs (world s)) of
         Returned v \<Rightarrow> \<not> (truthy v \<and> h_filter h)
       | Raised x \<Rightarrow> \<not> host_fatal x \<and> \<not> h_filter h"
    by simp
  have an: "a = None \<and> \<not> (truthy v \<and> h_filter h)"
  proof (cases "fst (call env h (if h_event h then Some e else None) eargs ekwargs (world s))")
    case (Returned u)
    with p i invoke_returned [OF Returned, of m error] show ?thesis by simp
  next
    case (Raised x)
    with p have nf: "\<not> host_fatal x" and nfil: "\<not> h_filter h" by simp_all
    from invoke_raised (1) [OF Raised nf, of m error] i nfil show ?thesis by simp
  qed
  have eq: "run_handlers env m e eargs ekwargs (h # hs) error s =
      run_handlers env m e eargs ekwargs hs er (keep_value m e v s1)"
    using i an by (auto simp: Let_def)
  from Cons.prems have "\<forall>h\<in>set hs. \<forall>w.
      (case fst (call env h (if h_event h then Some e else None) eargs ekwargs w) of
         Returned v \<Rightarrow> \<not> (truthy v \<and> h_filter h)
       | Raised x \<Rightarrow> \<not> host_fatal x \<and> \<not> h_filter h)" by simp
  from Cons.IH [OF this, of er "keep_value m e v s1"] t1
  show ?case by (simp add: eq del: run_handlers.simps)
qed


lemma dispatcher_loop:
  assumes "resolve env m e channels s = Inr (hs, s1)"
  shows "fst (dispatcher env m e channels s) =
           fst (run_handlers env m e (ev_args (events s e)) (ev_kwargs (events s e)) hs PNone s1)"
    and "trace (snd (dispatcher env m e channels s)) =
           trace (snd (snd (run_handlers env m e (ev_args (events s e)) (ev_kwargs (events s e)) hs PNone s1)))"
proof -
  obtain a er s2 where r: "run_handlers env m e (ev_args (events s e))
        (ev_kwargs (events s e)) hs PNone s1 = (a, er, s2)"
    by (cases "run_handlers env m e (ev_args (events s e)) (ev_kwargs (events s e)) hs PNone s1") auto
  show "fst (dispatcher env m e channels s) =
           fst (run_handlers env m e (ev_args (events s e)) (ev_kwargs (events s e)) hs PNone s1)"
    using r by (cases a) (simp_all add: dispatcher_def assms del: run_handlers.simps)
  show "trace (snd (dispatcher env m e channels s)) =
           trace (snd (snd (run_handlers env m e (ev_args (events s e)) (ev_kwargs (events s e)) hs PNone s1)))"
    using r by (cases a) (simp_all add: dispatcher_def assms del: run_handlers.simps)
qed


lemma invoke_cache [simp]:
  "cache (mgrs (snd (snd (snd (invoke env m e eargs ekwargs h error s)))) n) = cache (mgrs s n)"
  by (simp add: invoke_def Let_def split: outcome.split)

lemma keep_value_cache [simp]: "cache (mgrs (keep_value m e v s) n) = cache (mgrs s n)"
  by (simp add: keep_value_def Let_def)

lemma run_handlers_cache [simp]:
  "cache (mgrs (snd (snd (run_handlers env m e eargs ekwargs hs error s))) n) = cache (mgrs s n)"
proof (induction hs arbitrary: error s)
  case Nil
  then show ?case by simp
next
  case (Cons h hs)
  obtain a v er s1 where i: "invoke env m e eargs ekwargs h error s = (a, v, er, s1)"
    by (cases "invoke env m e eargs ekwargs h error s") auto
  have c1: "cache (mgrs s1 n) = cache (mgrs s n)"
    using invoke_cache [of env m e eargs ekwargs h error s n] i by simp
  show ?case
    using i c1 Cons.IH [of er "keep_value m e v s1"]
    by (cases a) (auto simp: Let_def)
qed

lemma dispatcher_cache:
  assumes "resolve env m e channels s = Inr (hs, s1)"
  shows "cache (mgrs (snd (dispatcher env m e channels s)) n) = cache (mgrs s1 n)"
proof -
  obtain a er s2 where r: "run_handlers env m e (ev_args (events s e))
        (ev_kwargs (events s e)) hs PNone s1 = (a, er, s2)"
    by (cases "run_handlers env m e (ev_args (events s e)) (ev_kwargs (events s e)) hs PNone s1") auto
  have "cache (mgrs s2 n) = cache (mgrs s1 n)"
    using run_handlers_cache [of env m e "ev_args (events s e)" "ev_kwargs (events s e)" hs PNone s1 n] r
    by simp
  with r show ?thesis
    by (cases a) (simp_all add: dispatcher_def assms del: run_handlers.simps)
qed



lemma h_ab_simps [simp]:
  "h_a \<noteq> h_b" "h_b \<noteq> h_a" "sortkey h_a = (0, False)" "sortkey h_b = (0, False)"
  "\<not> h_filter h_a" "\<not> h_filter h_b" "\<not> h_event h_a" "\<not> h_event h_b"
  "h_channel h_a = CStr ''*''" "h_channel h_b = CStr ''*''"
  by (simp_all add: h_a_def h_b_def sortkey_def)

lemma order_env_simps [simp]:
  "iter_handlers (order_env hs) H = filter (\<lambda>h. h \<in> H) hs"
  "call (order_env hs) h a as kw w = (Returned PNone, w)"
  "recursion_limit (order_env hs) = 10"
  by (simp_all add: order_env_def idle_env_def)

lemma tie_state_simps [simp]:
  "next_event tie_state = 1" "next_val tie_state = 1" "events tie_state i = ping"
  "trace tie_state = []" "world tie_state = ()"
  "cache (mgrs tie_state 0) = Map.empty"
  "handlers (mgrs tie_state 0) = [''ping'' \<mapsto> {h_a, h_b}]"
  "globals (mgrs tie_state 0) = {}" "components (mgrs tie_state 0) = {}"
  by (simp_all add: tie_state_def ping_state_def Manager_def)

lemma tie_getHandlers:
  "getHandlers 10 tie_state 0 ''ping'' (CStr ''*'') = Inr {h_a, h_b}"
  by (auto simp: eval_nat_numeral bucket_def Let_def)

lemma tie_chain:
  "chain_handlers (order_env hs) tie_state 0 ''ping'' [CStr ''*''] =
     Inr (filter (\<lambda>h. h = h_a \<or> h = h_b) hs)"
  by (simp add: tie_getHandlers)

lemma tie_sorted:
  "sorted_reverse sortkey [h_a, h_b] = [h_a, h_b]" "sorted_reverse sortkey [h_b, h_a] = [h_b, h_a]"
  by (simp_all add: sorted_reverse_def)

lemma tie_resolve:
  "fst (projr (resolve (order_env [h_a, h_b]) 0 0 [CStr ''*''] tie_state)) = [h_a, h_b]"
  "fst (projr (resolve (order_env [h_b, h_a]) 0 0 [CStr ''*''] tie_state)) = [h_b, h_a]"
  by (simp_all add: resolve_def tie_chain tie_sorted Let_def del: chain_handlers.simps)

lemma cold_state_simps [simp]:
  "next_event cold_state = 1" "next_val cold_state = 1" "events cold_state i = ping"
  "trace cold_state = []" "world cold_state = ()"
  "cache (mgrs cold_state 0) = Map.empty"
  "handlers (mgrs cold_state 0) = [''ping'' \<mapsto> {h_hi, h_lo}]"
  "globals (mgrs cold_state 0) = {}" "components (mgrs cold_state 0) = {}"
  by (simp_all add: cold_state_def ping_state_def Manager_def)

lemma h_hilo_simps [simp]:
  "h_hi \<noteq> h_lo" "h_lo \<noteq> h_hi" "sortkey h_hi = (10, True)" "sortkey h_lo = (1, False)"
  "h_channel h_hi = CStr ''*''" "h_channel h_lo = CStr ''*''" "\<not> h_filter h_lo"
  by (simp_all add: h_hi_def h_lo_def sortkey_def)

lemma cold_getHandlers:
  "getHandlers 10 cold_state 0 ''ping'' (CStr ''*'') = Inr {h_hi, h_lo}"
  by (auto simp: eval_nat_numeral bucket_def Let_def)

lemma cold_chain:
  "chain_handlers (order_env [h_lo, h_hi]) cold_state 0 ''ping'' [CStr ''*''] = Inr [h_lo, h_hi]"
  by (simp add: cold_getHandlers)

lemma cold_sorted: "sorted_reverse sortkey [h_lo, h_hi] = [h_hi, h_lo]"
  by (simp add: sorted_reverse_def)

lemma cold_cache_sorted: "cache_sorted cold_state 0"
  by (simp add: cache_sorted_def)



subsection \<open>The cache and the structure of the tree\<close>


lemma clear_cache_simps [simp]:
  "mgrs (clear_cache r s) n = (if n = r then (mgrs s r)\<lparr>cache := Map.empty\<rparr> else mgrs s n)"
  "events (clear_cache r s) = events s" "vals (clear_cache r s) = vals s"
  "trace (clear_cache r s) = trace s" "world (clear_cache r s) = world s"
  "next_event (clear_cache r s) = next_event s" "next_val (clear_cache r s) = next_val s"
  by (simp_all add: clear_cache_def)

lemma add_to_bucket_simps [simp]:
  "root (add_to_bucket n h M) = root M" "cache (add_to_bucket n h M) = cache M"
  by (simp_all add: add_to_bucket_def)

lemma fold_add_to_bucket_root [simp]:
  "root (fold (\<lambda>n. add_to_bucket n h) ns M) = root M"
  by (induction ns arbitrary: M) simp_all

lemma addHandler_clears: "cache (mgrs (addHandler m f s) (root (mgrs s m))) = Map.empty"
  by (simp add: addHandler_def Let_def)

lemma remove_names_root:
  "root (mgrs (snd (remove_names m h ns s)) n) = root (mgrs s n)"
  by (induction ns arbitrary: s) (auto split: option.splits)

lemma removeHandler_clears:
  assumes "fst (removeHandler m f ev s) = None"
  shows "cache (mgrs (snd (removeHandler m f ev s)) (root (mgrs s m))) = Map.empty"
proof -
  define ns where "ns = (case ev of None \<Rightarrow> names (bind_method m f) | Some n \<Rightarrow> [n])"
  obtain a s1 where r: "remove_names m (bind_method m f) ns s = (a, s1)"
    by (cases "remove_names m (bind_method m f) ns s") auto
  have rt: "root (mgrs s1 m) = root (mgrs s m)"
    using remove_names_root [of m "bind_method m f" ns s m] r by simp
  from assms r have a: "a = None"
    by (cases a) (simp_all add: removeHandler_def ns_def [symmetric] del: remove_names.simps)
  with r rt show ?thesis
    by (simp add: removeHandler_def ns_def [symmetric] del: remove_names.simps)
qed

lemma refresh_ticks_simps [simp]:
  "cache (mgrs (snd (refresh_ticks env r s)) n) = cache (mgrs s n)"
  "root (mgrs (snd (refresh_ticks env r s)) n) = root (mgrs s n)"
  by (simp_all add: refresh_ticks_def split: sum.splits)

lemma registerChild_clears:
  "cache (mgrs (snd (registerChild env m c s)) (root (mgrs s m))) = Map.empty"
  by (simp add: registerChild_def Let_def)

lemma unregisterChild_clears:
  "c \<in> components (mgrs s m) \<Longrightarrow>
     cache (mgrs (snd (unregisterChild env m c s)) (root (mgrs s m))) = Map.empty"
  by (simp add: unregisterChild_def Let_def)

lemma resolve_empty_cache:
  assumes "cache (mgrs s r) = Map.empty"
  shows "resolve env r e channels s =
     (case chain_handlers env s r (ev_name (events s e)) channels of
        Inl x \<Rightarrow> Inl x
      | Inr c \<Rightarrow> Inr (sorted_reverse sortkey c,
          upd_mgr r (\<lambda>M. M\<lparr>cache := (cache M)((ev_name (events s e), channels) \<mapsto>
             sorted_reverse sortkey c)\<rparr>) s))"
  using assms by (simp add: resolve_def Let_def split: sum.split)


text \<open>The calls that return: \<open>addHandler\<close> and \<open>registerChild\<close> on any manager empty
  the cache of its root; \<open>removeHandler\<close> and \<open>unregisterChild\<close> do so when they return (for
  \<open>unregisterChild\<close>: when the component is a child). A lookup on an empty cache computes
  the handler list from the handlers registered in the tree.\<close>

lemma structural_changes_clear_cache:
  "cache (mgrs (addHandler m f s) (root (mgrs s m))) = Map.empty
   \<and> (fst (removeHandler m f ev s) = None \<longrightarrow>
        cache (mgrs (snd (removeHandler m f ev s)) (root (mgrs s m))) = Map.empty)
   \<and> cache (mgrs (snd (registerChild env m c s)) (root (mgrs s m))) = Map.empty
   \<and> (c \<in> components (mgrs s m) \<longrightarrow>
        cache (mgrs (snd (unregisterChild env m c s)) (root (mgrs s m))) = Map.empty)
   \<and> (cache (mgrs s r) = Map.empty \<longrightarrow>
        resolve env r e channels s =
          (case chain_handlers env s r (ev_name (events s e)) channels of
             Inl x \<Rightarrow> Inl x
           | Inr hs \<Rightarrow> Inr (sorted_reverse sortkey hs,
               upd_mgr r (\<lambda>M. M\<lparr>cache := (cache M)((ev_name (events s e), channels) \<mapsto>
                  sorted_reverse sortkey hs)\<rparr>) s)))"
  using addHandler_clears removeHandler_clears registerChild_clears unregisterChild_clears
    resolve_empty_cache
  by blast

lemma h_two_simps [simp]:
  "h_self h_two = Some 0" "names h_two = [''ping'', ''pong'']" "h_name h_two = ''two''"
  "h_channel h_two = CStr ''*''" "bind_method m h_two = h_two"
  by (simp_all add: h_two_def bind_method_def)

lemma fresh_ping_simps [simp]:
  "events fresh_ping i = ping" "mgrs fresh_ping = Manager"
  by (simp_all add: fresh_ping_def start_state_def)

lemma Manager_simps [simp]:
  "root (Manager m) = m" "handlers (Manager m) = Map.empty" "cache (Manager m) = Map.empty"
  "globals (Manager m) = {}" "components (Manager m) = {}" "channel (Manager m) = None"
  by (simp_all add: Manager_def)

lemma half_removed_simps [simp]:
  "handlers (mgrs half_removed 0) = [''ping'' \<mapsto> {h_two}]"
  "cache (mgrs half_removed 0) = Map.empty" "root (mgrs half_removed 0) = 0"
  "globals (mgrs half_removed 0) = {}" "components (mgrs half_removed 0) = {}"
  "events half_removed i = ping"
  "fst (removeHandler 0 h_two (Some ''pong'') (addHandler 0 h_two fresh_ping)) = None"
  by (auto simp: half_removed_def addHandler_def removeHandler_def add_to_bucket_def bucket_def
      Let_def)


lemma half_getHandlers:
  "getHandlers 10 half_removed 0 ''ping'' (CStr ''*'') = Inr {h_two}"
  by (auto simp: eval_nat_numeral bucket_def Let_def)

lemma half_resolve:
  "resolve (order_env [h_two]) 0 0 [CStr ''*''] half_removed =
     Inr ([h_two], upd_mgr 0 (\<lambda>M. M\<lparr>cache := (cache M)((''ping'', [CStr ''*'']) \<mapsto> [h_two])\<rparr>)
       half_removed)"
  by (simp add: resolve_def half_getHandlers sorted_reverse_def Let_def del: getHandlers.simps)

lemma stale_state_simps [simp]:
  "handlers (mgrs stale_state 0) = [''ping'' \<mapsto> {h_two}]"
  "cache (mgrs stale_state 0) = [(''ping'', [CStr ''*'']) \<mapsto> [h_two]]"
  "root (mgrs stale_state 0) = 0" "events stale_state i = ping"
  by (simp_all add: stale_state_def half_resolve)

lemma structural_changes_clear_cache_example:
  "cache (mgrs half_removed 0) = Map.empty
   \<and> cache (mgrs (snd (unregisterChild idle_env 0 1 small_tree)) 0) = Map.empty
   \<and> resolve (order_env [h_two]) 0 0 [CStr ''*''] half_removed =
       (case chain_handlers (order_env [h_two]) half_removed 0 (ev_name (events half_removed 0))
               [CStr ''*''] of
          Inl x \<Rightarrow> Inl x
        | Inr hs \<Rightarrow> Inr (sorted_reverse sortkey hs,
            upd_mgr 0 (\<lambda>M. M\<lparr>cache := (cache M)((ev_name (events half_removed 0), [CStr ''*'']) \<mapsto>
               sorted_reverse sortkey hs)\<rparr>) half_removed))"
proof -
  have 1: "cache (mgrs half_removed 0) = Map.empty"
    using structural_changes_clear_cache [where m = 0 and f = h_two and ev = "Some ''pong''"
        and s = "addHandler 0 h_two fresh_ping", THEN conjunct2, THEN conjunct1]
    by (simp add: half_removed_def [symmetric])
  have c: "1 \<in> components (mgrs small_tree 0)" and r: "root (mgrs small_tree 0) = 0"
    by (simp_all add: small_tree_def)
  have 2: "cache (mgrs (snd (unregisterChild idle_env 0 1 small_tree)) 0) = Map.empty"
    using structural_changes_clear_cache [where m = 0 and c = 1 and s = small_tree
        and env = idle_env, THEN conjunct2, THEN conjunct2, THEN conjunct2, THEN conjunct1] c r
    by simp
  note 3 = structural_changes_clear_cache [where r = 0 and s = half_removed and e = 0
        and env = "order_env [h_two]" and channels = "[CStr ''*'']",
        THEN conjunct2, THEN conjunct2, THEN conjunct2, THEN conjunct2, rule_format, OF 1]
  from 1 2 3 show ?thesis by blast
qed

text \<open>A call that raises before it changes anything: \<open>unregisterChild\<close> of a component
  that is not a child, and \<open>removeHandler\<close> of a handler that is not in the bucket of its
  first name, raise \<open>KeyError\<close>, and the tree and the cache stay as they were.\<close>

lemma failed_calls_keep_cache:
  "fst (unregisterChild idle_env 0 5 ping_state) = Some key_error
   \<and> fst (removeHandler 0 h_two None ping_state) = Some key_error
   \<and> cache (mgrs (snd (unregisterChild idle_env 0 5 ping_state)) 0) (''ping'', [CStr ''*'']) =
       Some [h_hi, h_lo]
   \<and> cache (mgrs (snd (removeHandler 0 h_two None ping_state)) 0) (''ping'', [CStr ''*'']) =
       Some [h_hi, h_lo]
   \<and> handlers (mgrs (snd (removeHandler 0 h_two None ping_state)) 0) =
       handlers (mgrs ping_state 0)
   \<and> components (mgrs (snd (unregisterChild idle_env 0 5 ping_state)) 0) =
       components (mgrs ping_state 0)"
proof -
  have h: "handlers (mgrs ping_state 0) ''ping'' = Some {h_hi, h_lo}"
    and c: "components (mgrs ping_state 0) = {}"
    by (simp_all add: ping_state_def)
  have n: "h_two \<notin> {h_hi, h_lo}"
    by (simp add: h_two_def h_hi_def h_lo_def)
  show ?thesis
    using h c n by (simp add: unregisterChild_def removeHandler_def)
qed

lemma idle_call: "call idle_env h a as kw w = (Returned PNone, w)"
  by (simp add: idle_env_def)

lemma after_removal:
  "removeHandler 0 h_two None stale_state =
     (Some key_error, upd_mgr 0 (\<lambda>M. M\<lparr>handlers := (handlers M)(''ping'' := None),
         attrs := (attrs M)(''two'' := None)\<rparr>) stale_state)"
  by (simp add: removeHandler_def)

lemma after_removal_getHandlers:
  "getHandlers 10 (snd (removeHandler 0 h_two None stale_state)) 0 ''ping'' (CStr ''*'') = Inr {}"
  unfolding after_removal
  by (auto simp: eval_nat_numeral bucket_def Let_def stale_state_def half_resolve)

text \<open>C8: a \<open>removeHandler\<close> that fails halfway changes the tree and leaves the cache as
  it was. The loop over the names raises \<open>KeyError\<close> at the first name under which the
  handler is not registered, and the line that clears the cache is never reached. Here
  the handler is registered and cached for \<open>ping\<close>, and no longer registered for \<open>pong\<close>:
  the call removes it for \<open>ping\<close> and raises at \<open>pong\<close>. The tree then has no handler for
  \<open>ping\<close>, the cache still lists the handler, and the next dispatch of \<open>ping\<close> calls
  it.\<close>

theorem failed_removal_leaves_stale_cache:
  "cache (mgrs stale_state 0) (''ping'', [CStr ''*'']) = Some [h_two]
   \<and> handlers (mgrs stale_state 0) ''ping'' = Some {h_two}
   \<and> fst (removeHandler 0 h_two None stale_state) = Some key_error
   \<and> handlers (mgrs (snd (removeHandler 0 h_two None stale_state)) 0) ''ping'' = None
   \<and> chain_handlers idle_env (snd (removeHandler 0 h_two None stale_state)) 0 ''ping''
       [CStr ''*''] = Inr []
   \<and> cache (mgrs (snd (removeHandler 0 h_two None stale_state)) 0) (''ping'', [CStr ''*'']) =
       Some [h_two]
   \<and> resolve idle_env 0 0 [CStr ''*''] (snd (removeHandler 0 h_two None stale_state)) =
       Inr ([h_two], snd (removeHandler 0 h_two None stale_state))
   \<and> trace (snd (dispatcher idle_env 0 0 [CStr ''*'']
        (snd (removeHandler 0 h_two None stale_state)))) = trace stale_state @ [Called h_two]"
proof -
  have r: "resolve idle_env 0 0 [CStr ''*''] (snd (removeHandler 0 h_two None stale_state)) =
       Inr ([h_two], snd (removeHandler 0 h_two None stale_state))"
    by (simp add: after_removal resolve_def Let_def)
  have c: "chain_handlers idle_env (snd (removeHandler 0 h_two None stale_state)) 0 ''ping''
       [CStr ''*''] = Inr []"
    using after_removal_getHandlers by (simp add: idle_env_def)
  have t: "trace (snd (dispatcher idle_env 0 0 [CStr ''*'']
        (snd (removeHandler 0 h_two None stale_state)))) = trace stale_state @ [Called h_two]"
    by (simp add: dispatcher_def r [unfolded after_removal snd_conv] invoke_def keep_value_def
        Let_def after_removal idle_call)
  from r c t show ?thesis by (simp add: after_removal)
qed

subsection \<open>What a tick leaves alone\<close>


lemma frame_world_trace [simp]: "frame s (s'\<lparr>world := w\<rparr>) = frame s s'"
  "frame s (s'\<lparr>trace := t\<rparr>) = frame s s'"
  by (simp_all add: frame_def)

lemma frame_upd_mgr_cache [simp]: "frame s (upd_mgr m (\<lambda>M. M\<lparr>cache := c M\<rparr>) s)"
  "frame s (upd_mgr m (\<lambda>M. M\<lparr>queue := q M\<rparr>) s)"
  by (simp_all add: frame_def upd_mgr_def)

lemma frame_step: "frame s s1 \<Longrightarrow> frame s1 s2 \<Longrightarrow> frame s s2"
  by (rule frame_trans)

lemma frame_called [simp]: "frame s (called env e eargs ekwargs h s)"
  by (simp add: called_def)

lemma frame_invoke: "frame s (snd (snd (snd (invoke env m e eargs ekwargs h error s))))"
proof (cases "fst (call env h (if h_event h then Some e else None) eargs ekwargs (world s))")
  case (Returned v)
  then show ?thesis by (simp add: invoke_returned)
next
  case (Raised x)
  show ?thesis
  proof (cases "host_fatal x")
    case True
    with Raised show ?thesis by (simp add: invoke_fatal)
  next
    case False
    have a: "frame s (upd_val (ev_value (events s e)) (\<lambda>V. V\<lparr>errors := True\<rparr>)
        (called env e eargs ekwargs h s))"
      by (rule frame_trans [OF frame_called frame_upd_val])
    show ?thesis
      unfolding invoke_caught_state [OF Raised False]
      by (auto intro: frame_trans [OF a frame_fire_new]
          frame_trans [OF frame_trans [OF a frame_fire_new] frame_fire_new])
  qed
qed

lemma frame_run_handlers: "frame s (snd (snd (run_handlers env m e eargs ekwargs hs error s)))"
proof (induction hs arbitrary: error s)
  case Nil
  then show ?case by simp
next
  case (Cons h hs)
  obtain a v er s1 where i: "invoke env m e eargs ekwargs h error s = (a, v, er, s1)"
    by (cases "invoke env m e eargs ekwargs h error s") auto
  have f1: "frame s s1" using frame_invoke [of s env m e eargs ekwargs h error] i by simp
  have f2: "frame s (keep_value m e v s1)" by (rule frame_trans [OF f1 frame_keep_value])
  show ?case
    using i f1 f2 frame_trans [OF f2 Cons.IH [of "keep_value m e v s1" er]]
    by (cases a) (auto simp: Let_def)
qed

lemma frame_resolve: "resolve env m e channels s = Inr (hs, s1) \<Longrightarrow> frame s s1"
  by (auto simp: resolve_def Let_def split: option.splits sum.splits)

lemma frame_dispatcher: "frame s (snd (dispatcher env m e channels s))"
proof (cases "resolve env m e channels s")
  case (Inl x)
  then show ?thesis by (simp add: dispatcher_def)
next
  case (Inr p)
  obtain hs s1 where p: "p = (hs, s1)" by (cases p) auto
  obtain a er s2 where r: "run_handlers env m e (ev_args (events s e))
        (ev_kwargs (events s e)) hs PNone s1 = (a, er, s2)"
    by (cases "run_handlers env m e (ev_args (events s e)) (ev_kwargs (events s e)) hs PNone s1") auto
  have f1: "frame s s1" using Inr p frame_resolve by blast
  have "frame s1 s2"
    using frame_run_handlers [of s1 env m e "ev_args (events s e)" "ev_kwargs (events s e)" hs PNone] r
    by simp
  with f1 have f2: "frame s s2" by (rule frame_trans)
  have f3: "frame s (eventDone env m e er s2)" by (rule frame_trans [OF f2 frame_eventDone])
  show ?thesis
    using Inr p r f2 f3 by (cases a) (simp_all add: dispatcher_def del: run_handlers.simps)
qed

lemma frame_dispatch_all: "frame s (snd (dispatch_all env m q s))"
proof (induction q arbitrary: s)
  case Nil
  then show ?case by simp
next
  case (Cons p q)
  obtain e chs where p: "p = (e, chs)" by (cases p) auto
  obtain a s1 where d: "dispatcher env m e chs s = (a, s1)" by (cases "dispatcher env m e chs s") auto
  have f1: "frame s s1" using frame_dispatcher [of s env m e chs] d by simp
  show ?case
    using p d f1 frame_trans [OF f1 Cons.IH [of s1]] by (cases a) simp_all
qed

lemma frame_flushEvents: "frame s (snd (flushEvents env m s))"
  unfolding flushEvents_def flush_queue_def
  by (rule frame_trans [OF _ frame_dispatch_all]) simp


lemma frame_task_exhausted: "frame s (task_exhausted env m e t par s)"
  unfolding task_exhausted_def Let_def
  by (cases par)
     (auto intro!: frame_trans [OF _ frame_eventDone] frame_trans [OF _ frame_upd_val]
        frame_trans [OF _ frame_upd_event] frame_trans [OF _ frame_registerTask])

lemma frame_task_failed: "frame s (task_failed env m e t v x s)"
  unfolding task_failed_def Let_def
  by (auto intro!: frame_trans [OF _ frame_fire_new] frame_trans [OF _ frame_upd_val])

lemma frame_processTask: "frame s (snd (processTask env d m e t par s))"
proof (induction d arbitrary: t par s)
  case 0
  then show ?case by simp
next
  case (Suc d)
  define s1 where "s1 = s\<lparr>world := snd (next_step env t (world s)), trace := trace s @ [Stepped t]\<rparr>"
  have f1: "frame s s1" by (simp add: s1_def)
  show ?case
  proof (cases "fst (next_step env t (world s))")
    case (Yielded v)
    show ?thesis
    proof (cases "is_generator v")
      case True
      define s4 where "s4 = unregisterTask m (Task2 e t) (registerTask m (Task3 e (the_gen v) t)
          (upd_event e (\<lambda>ev. ev\<lparr>waitingHandlers := waitingHandlers ev + 1\<rparr>) s1))"
      have f4: "frame s s4"
        unfolding s4_def
        by (intro frame_trans [OF _ frame_unregisterTask] frame_trans [OF _ frame_registerTask]
            frame_trans [OF f1 frame_upd_event])
      obtain a s5 where r: "processTask env d m e (the_gen v) None s4 = (a, s5)"
        by (cases "processTask env d m e (the_gen v) None s4") auto
      have f5: "frame s s5"
        using frame_trans [OF f4 Suc.IH [of s4 "the_gen v" None]] r by simp
      have eq: "processTask env (Suc d) m e t par s =
          (case processTask env d m e (the_gen v) None s4 of
             (None, s5) \<Rightarrow> (None, s5)
           | (Some x, s5) \<Rightarrow>
               if etype x = StopIteration then (None, task_exhausted env m e t par s5)
               else (None, task_failed env m e t v x s5))"
        using Yielded True by (simp add: Let_def s4_def s1_def)
      show ?thesis
        unfolding eq r
        using f5 frame_trans [OF f5 frame_task_exhausted] frame_trans [OF f5 frame_task_failed]
        by (cases a) auto
    next
      case False
      with Yielded f1 show ?thesis
        by (auto simp: Let_def s1_def [symmetric] intro: frame_trans [OF f1 frame_upd_val])
    qed
  next
    case Exhausted
    then show ?thesis
      by (simp add: Let_def s1_def [symmetric] frame_trans [OF f1 frame_task_exhausted])
  next
    case (Failed x)
    then show ?thesis
      by (simp add: Let_def s1_def [symmetric] frame_trans [OF f1 frame_task_exhausted]
          frame_trans [OF f1 frame_task_failed])
  qed
qed

lemma frame_process: "frame s (snd (process env m t s))"
  by (cases t) (simp_all add: frame_processTask)

lemma frame_run_tasks: "frame s (snd (run_tasks env m ts s))"
proof (induction ts arbitrary: s)
  case Nil
  then show ?case by simp
next
  case (Cons t ts)
  obtain a s1 where d: "process env m t s = (a, s1)" by (cases "process env m t s") auto
  have f1: "frame s s1" using frame_process [of s env m t] d by simp
  show ?case
    using d f1 frame_trans [OF f1 Cons.IH [of s1]] by (cases a) simp_all
qed

lemma frame_run_ticks: "frame s (snd (run_ticks env m fs s))"
proof (induction fs arbitrary: s)
  case Nil
  then show ?case by simp
next
  case (Cons f fs)
  define s1 where "s1 = s\<lparr>world := snd (call_tick env f (world s)), trace := trace s @ [Ticked f]\<rparr>"
  have f1: "frame s s1" by (simp add: s1_def)
  show ?case
  proof (cases "fst (call_tick env f (world s))")
    case (Returned u)
    then show ?thesis
      using frame_trans [OF f1 Cons.IH [of s1]] by (simp add: Let_def s1_def)
  next
    case (Raised x)
    then show ?thesis
      using f1 frame_trans [OF frame_trans [OF f1 frame_fire_new] Cons.IH]
      by (simp add: Let_def s1_def)
  qed
qed

lemma frame_tick: "frame s (snd (tick env m s))"
proof -
  obtain a s1 where r1: "run_ticks env m (iter_ticks env (ticks (mgrs s m))) s = (a, s1)"
    by (cases "run_ticks env m (iter_ticks env (ticks (mgrs s m))) s") auto
  have f1: "frame s s1" using frame_run_ticks [of s env m "iter_ticks env (ticks (mgrs s m))"] r1 by simp
  obtain b s2 where r2: "run_tasks env m (iter_tasks env (tasks (mgrs s1 m))) s1 = (b, s2)"
    by (cases "run_tasks env m (iter_tasks env (tasks (mgrs s1 m))) s1") auto
  have f2: "frame s s2"
    using frame_trans [OF f1 frame_run_tasks [of s1 env m "iter_tasks env (tasks (mgrs s1 m))"]] r2
    by simp
  have f3: "frame s (snd (flushEvents env m s2))" by (rule frame_trans [OF f2 frame_flushEvents])
  show ?thesis
    using r1 r2 f1 f2 f3
    by (cases a; cases b) (simp_all add: tick_def del: run_ticks.simps run_tasks.simps)
qed

lemma frame_tick_times: "frame s (snd (tick_times env m n s))"
proof (induction n arbitrary: s)
  case 0
  then show ?case by simp
next
  case (Suc n)
  obtain a s1 where d: "tick env m s = (a, s1)" by (cases "tick env m s") auto
  have f1: "frame s s1" using frame_tick [of s env m] d by simp
  show ?case
    using d f1 frame_trans [OF f1 Suc.IH [of s1]] by (cases a) simp_all
qed

subsection \<open>stop\<close>


lemma stop_not_running: "\<not> running (mgrs (snd (stop env m s)) m)"
proof (cases "running (mgrs s m)")
  case False
  then show ?thesis by (simp add: stop_def)
next
  case True
  define s2 where "s2 = fire_new env m ''Stopped'' [AManager m] []
      (upd_mgr m (\<lambda>M. M\<lparr>running := False\<rparr>) s)"
  have r2: "\<not> running (mgrs s2 m)" by (simp add: s2_def)
  obtain a s3 where t: "tick_times env m 3 s2 = (a, s3)" by (cases "tick_times env m 3 s2") auto
  have "frame s2 s3" using frame_tick_times [of s2 env m 3] t by simp
  from frame_fields (1) [OF this, of m] r2 have r3: "\<not> running (mgrs s3 m)" by simp
  show ?thesis
    using True t r3 by (cases a) (simp_all add: stop_def Let_def s2_def [symmetric] del: tick_times.simps)
qed

lemma tick_times_3:
  "tick_times env m 3 s =
     (case tick env m s of
        (Some x, a) \<Rightarrow> (Some x, a)
      | (None, a) \<Rightarrow>
          (case tick env m a of
             (Some x, b) \<Rightarrow> (Some x, b)
           | (None, b) \<Rightarrow>
               (case tick env m b of
                  (Some x, c) \<Rightarrow> (Some x, c)
                | (None, c) \<Rightarrow> (None, c))))"
  by (simp add: eval_nat_numeral split: prod.splits option.splits)


text \<open>C9: \<open>stop\<close> on a manager that is not running returns at once and leaves the state
  as it is. On a running manager it clears the running flag, fires \<open>Stopped(self)\<close>, calls
  \<open>tick\<close> three times and then clears the task handle (an exception that leaves a tick
  leaves \<open>stop\<close> there). After \<open>stop\<close> the manager is not running, whatever the ticks
  did, so a second \<open>stop\<close> changes nothing: \<open>stop\<close> after \<open>stop\<close> is \<open>stop\<close>.\<close>

theorem stop_is_idempotent:
  "(\<not> running (mgrs s m) \<longrightarrow> stop env m s = (None, s))
   \<and> (running (mgrs s m) \<longrightarrow>
        stop env m s =
          (case tick env m (fire_new env m ''Stopped'' [AManager m] []
                              (upd_mgr m (\<lambda>M. M\<lparr>running := False\<rparr>) s)) of
             (Some x, a) \<Rightarrow> (Some x, a)
           | (None, a) \<Rightarrow>
               (case tick env m a of
                  (Some x, b) \<Rightarrow> (Some x, b)
                | (None, b) \<Rightarrow>
                    (case tick env m b of
                       (Some x, c) \<Rightarrow> (Some x, c)
                     | (None, c) \<Rightarrow> (None, upd_mgr m (\<lambda>M. M\<lparr>task_handle := None\<rparr>) c))))
      \<and> fired_since (root (mgrs s m)) s
            (fire_new env m ''Stopped'' [AManager m] [] (upd_mgr m (\<lambda>M. M\<lparr>running := False\<rparr>) s)) =
          [(''Stopped'', [AManager m], default_channels s m [])]
      \<and> (fst (stop env m s) = None \<longrightarrow> task_handle (mgrs (snd (stop env m s)) m) = None))
   \<and> \<not> running (mgrs (snd (stop env m s)) m)
   \<and> stop env m (snd (stop env m s)) = (None, snd (stop env m s))"
proof (intro conjI impI)
  assume "\<not> running (mgrs s m)"
  then show "stop env m s = (None, s)" by (simp add: stop_def)
next
  assume r: "running (mgrs s m)"
  then show "stop env m s =
          (case tick env m (fire_new env m ''Stopped'' [AManager m] []
                              (upd_mgr m (\<lambda>M. M\<lparr>running := False\<rparr>) s)) of
             (Some x, a) \<Rightarrow> (Some x, a)
           | (None, a) \<Rightarrow>
               (case tick env m a of
                  (Some x, b) \<Rightarrow> (Some x, b)
                | (None, b) \<Rightarrow>
                    (case tick env m b of
                       (Some x, c) \<Rightarrow> (Some x, c)
                     | (None, c) \<Rightarrow> (None, upd_mgr m (\<lambda>M. M\<lparr>task_handle := None\<rparr>) c))))"
    by (simp add: stop_def Let_def tick_times_3 split: prod.splits option.splits
        del: tick_times.simps)
next
  show "fired_since (root (mgrs s m)) s
            (fire_new env m ''Stopped'' [AManager m] [] (upd_mgr m (\<lambda>M. M\<lparr>running := False\<rparr>) s)) =
          [(''Stopped'', [AManager m], default_channels s m [])]"
    by (simp add: fired_since_def default_channels_def)
next
  assume r: "running (mgrs s m)" and n: "fst (stop env m s) = None"
  then show "task_handle (mgrs (snd (stop env m s)) m) = None"
    by (cases "tick_times env m 3 (fire_new env m ''Stopped'' [AManager m] []
          (upd_mgr m (\<lambda>M. M\<lparr>running := False\<rparr>) s))")
       (auto simp: stop_def Let_def split: option.splits simp del: tick_times.simps)
next
  show "\<not> running (mgrs (snd (stop env m s)) m)" by (rule stop_not_running)
next
  from stop_not_running [of env m s]
  show "stop env m (snd (stop env m s)) = (None, snd (stop env m s))"
    by (simp add: stop_def [of env m "snd (stop env m s)"])
qed

lemma idle_env_more [simp]:
  "iter_handlers idle_env H = []" "recursion_limit idle_env = 10" "event_name idle_env c = c"
  by (simp_all add: idle_env_def)

lemma running_state_simps [simp]:
  "mgrs running_state n = (if n = 0 then (Manager 0)\<lparr>ticks := {7}, own_ticks := {7},
       running := True, task_handle := Some 1\<rparr> else Manager n)"
  "trace running_state = []" "world running_state = ()"
  "next_event running_state = 0" "next_val running_state = 0"
  by (simp_all add: running_state_def ticking_state_def start_state_def)

lemma Manager_more [simp]:
  "tasks (Manager m) = {}" "queue (Manager m) = []" "ticks (Manager m) = {}"
  "running (Manager m) = False"
  by (simp_all add: Manager_def)

lemma fire_new_mgrs:
  "mgrs (fire_new env m c as chs s) n =
     (mgrs s n)\<lparr>queue := queue (mgrs s n) @
        (if n = root (mgrs s m) then [(next_event s, default_channels s m chs)] else [])\<rparr>"
  by (simp add: fire_new_def create_def fireEvent_def fire_raw_def upd_mgr_def upd_event_def Let_def
      fire_channels_def default_channels_def)

lemma idle_tick_sleeps:
  assumes "ticks (mgrs s 0) = {7}" "tasks (mgrs s 0) = {}" "queue (mgrs s 0) = []"
  shows "fst (tick idle_env 0 s) = None"
    and "trace (snd (tick idle_env 0 s)) = trace s @ [Ticked 7, Slept]"
    and "mgrs (snd (tick idle_env 0 s)) = mgrs s"
  using assms by (simp_all add: tick_def Let_def)

lemma idle_dispatch_nothing:
  assumes "cache (mgrs s 0) (ev_name (events s e), chs) = None" "handlers (mgrs s 0) = Map.empty"
    "globals (mgrs s 0) = {}" "components (mgrs s 0) = {}"
    "waitingHandlers (events s e) = 0" "\<not> alert_done (events s e)" "\<not> success (events s e)"
    "\<forall>c \<in> set chs. \<not> is_mgr c"
  shows "fst (dispatcher idle_env 0 e chs s) = None"
    and "trace (snd (dispatcher idle_env 0 e chs s)) = trace s"
    and "ticks (mgrs (snd (dispatcher idle_env 0 e chs s)) 0) = ticks (mgrs s 0)"
    and "tasks (mgrs (snd (dispatcher idle_env 0 e chs s)) 0) = tasks (mgrs s 0)"
    and "queue (mgrs (snd (dispatcher idle_env 0 e chs s)) 0) = queue (mgrs s 0)"
proof -
  have g: "getHandlers 10 s 0 n c = Inr {}" if "\<not> is_mgr c" for n c
    using assms(2-4) that by (simp add: eval_nat_numeral bucket_def Let_def)
  have c: "chain_handlers idle_env s 0 n cs = Inr []" if "\<forall>c \<in> set cs. \<not> is_mgr c" for n cs
    using that by (induction cs) (simp_all add: g del: getHandlers.simps)
  have r: "resolve idle_env 0 e chs s =
      Inr ([], upd_mgr 0 (\<lambda>M. M\<lparr>cache := (cache M)((ev_name (events s e), chs) \<mapsto> [])\<rparr>) s)"
    using assms(1) c [OF assms(8)] by (simp add: resolve_def sorted_reverse_def Let_def)
  show "fst (dispatcher idle_env 0 e chs s) = None"
    and "trace (snd (dispatcher idle_env 0 e chs s)) = trace s"
    and "ticks (mgrs (snd (dispatcher idle_env 0 e chs s)) 0) = ticks (mgrs s 0)"
    and "tasks (mgrs (snd (dispatcher idle_env 0 e chs s)) 0) = tasks (mgrs s 0)"
    and "queue (mgrs (snd (dispatcher idle_env 0 e chs s)) 0) = queue (mgrs s 0)"
    using assms(5-7) by (simp_all add: dispatcher_def r eventDone_def Let_def)
qed


lemma new_event_flags [simp]:
  "waitingHandlers (new_event env c as) = 0" "\<not> alert_done (new_event env c as)"
  "\<not> success (new_event env c as)" "\<not> failure (new_event env c as)"
  by (simp_all add: new_event_def)

lemma stop_run:
  "fst (stop idle_env 0 running_state) = None"
  "trace (snd (stop idle_env 0 running_state)) = [Ticked 7, Ticked 7, Slept, Ticked 7, Slept]"
  "task_handle (mgrs (snd (stop idle_env 0 running_state)) 0) = None"
proof -
  define S2 where "S2 = fire_new idle_env 0 ''Stopped'' [AManager 0] []
      (upd_mgr 0 (\<lambda>M. M\<lparr>running := False\<rparr>) running_state)"
  define Q where "Q = upd_mgr 0 (\<lambda>M. M\<lparr>queue := []\<rparr>) (S2\<lparr>world := (), trace := [Ticked 7]\<rparr>)"
  define A where "A = snd (dispatcher idle_env 0 0 [CStr ''*''] Q)"
  have q: "mgrs S2 0 = (Manager 0)\<lparr>ticks := {7}, own_ticks := {7}, running := False,
      task_handle := Some 1, queue := [(0, [CStr ''*''])]\<rparr>" "trace S2 = []"
    "events S2 0 = (new_event idle_env ''Stopped'' [AManager 0])\<lparr>ev_channels := [CStr ''*''],
       ev_value := 0\<rparr>"
    by (simp_all add: S2_def fire_new_mgrs default_channels_def)
  have Q: "mgrs Q 0 = (Manager 0)\<lparr>ticks := {7}, own_ticks := {7}, running := False,
      task_handle := Some 1\<rparr>" "trace Q = [Ticked 7]" "events Q 0 = events S2 0"
    by (simp_all add: Q_def q Manager_def)
  note d = idle_dispatch_nothing [of Q 0 "[CStr ''*'']"]
  have dA: "fst (dispatcher idle_env 0 0 [CStr ''*''] Q) = None" "trace A = [Ticked 7]"
    "ticks (mgrs A 0) = {7}" "tasks (mgrs A 0) = {}" "queue (mgrs A 0) = []"
    using d by (simp_all add: A_def Q q)
  have t1: "tick idle_env 0 S2 = (None, A)"
    using dA(1) by (cases "dispatcher idle_env 0 0 [CStr ''*''] Q")
      (simp add: tick_def q Let_def flushEvents_def flush_queue_def Q_def [symmetric] A_def)
  define B where "B = snd (tick idle_env 0 A)"
  note i1 = idle_tick_sleeps [OF dA(3) dA(4) dA(5)]
  have t2: "tick idle_env 0 A = (None, B)"
    using i1(1) by (cases "tick idle_env 0 A") (simp add: B_def)
  have B: "trace B = [Ticked 7, Ticked 7, Slept]" "mgrs B = mgrs A"
    using i1 dA(2) by (simp_all add: B_def)
  define C where "C = snd (tick idle_env 0 B)"
  have pre: "ticks (mgrs B 0) = {7}" "tasks (mgrs B 0) = {}" "queue (mgrs B 0) = []"
    using dA by (simp_all add: B)
  note i2 = idle_tick_sleeps [OF pre]
  have t3: "tick idle_env 0 B = (None, C)"
    using i2(1) by (cases "tick idle_env 0 B") (simp add: C_def)
  have C: "trace C = [Ticked 7, Ticked 7, Slept, Ticked 7, Slept]"
    using i2 B by (simp add: C_def)
  have s: "stop idle_env 0 running_state = (None, upd_mgr 0 (\<lambda>M. M\<lparr>task_handle := None\<rparr>) C)"
    by (simp add: stop_def Let_def S2_def [symmetric] tick_times_3 t1 t2 t3 del: tick_times.simps)
  show "fst (stop idle_env 0 running_state) = None"
    "trace (snd (stop idle_env 0 running_state)) = [Ticked 7, Ticked 7, Slept, Ticked 7, Slept]"
    "task_handle (mgrs (snd (stop idle_env 0 running_state)) 0) = None"
    by (simp_all add: s C)
qed

theorem stop_is_idempotent_witness:
  "stop idle_env 0 ticking_state = (None, ticking_state)
   \<and> fst (stop idle_env 0 running_state) = None
   \<and> task_handle (mgrs (snd (stop idle_env 0 running_state)) 0) = None
   \<and> \<not> running (mgrs (snd (stop idle_env 0 running_state)) 0)
   \<and> stop idle_env 0 (snd (stop idle_env 0 running_state)) =
       (None, snd (stop idle_env 0 running_state))
   \<and> trace (snd (stop idle_env 0 running_state)) = [Ticked 7, Ticked 7, Slept, Ticked 7, Slept]"
proof -
  have n: "\<not> running (mgrs ticking_state 0)"
    by (simp add: ticking_state_def start_state_def)
  have r: "running (mgrs running_state 0)"
    by simp
  note A = stop_is_idempotent [of ticking_state 0 idle_env]
  note B = stop_is_idempotent [of running_state 0 idle_env]
  from A n have 1: "stop idle_env 0 ticking_state = (None, ticking_state)" by blast
  from B r stop_run (1)
  have 2: "task_handle (mgrs (snd (stop idle_env 0 running_state)) 0) = None" by blast
  from B have 3: "\<not> running (mgrs (snd (stop idle_env 0 running_state)) 0)"
    and 4: "stop idle_env 0 (snd (stop idle_env 0 running_state)) =
       (None, snd (stop idle_env 0 running_state))" by blast+
  from 1 2 3 4 stop_run (1) stop_run (2) show ?thesis by blast
qed

subsection \<open>The counter of waiting handlers\<close>


lemma task_count_remove:
  assumes "finite T" "x \<in> T" "task_event x = e"
  shows "int (card {t \<in> T - {x}. task_event t = e}) = int (card {t \<in> T. task_event t = e}) - 1"
proof -
  have eq: "{t \<in> T - {x}. task_event t = e} = {t \<in> T. task_event t = e} - {x}" by blast
  have fin: "finite {t \<in> T. task_event t = e}" using assms(1) by simp
  have mem: "x \<in> {t \<in> T. task_event t = e}" using assms by simp
  then have "card {t \<in> T. task_event t = e} > 0" using fin by (auto simp: card_gt_0_iff)
  then show ?thesis unfolding eq using fin mem by (simp add: card_Diff_singleton)
qed

lemma task_count_insert:
  assumes "finite T" "x \<notin> T" "task_event x = e"
  shows "int (card {t \<in> insert x T. task_event t = e}) = int (card {t \<in> T. task_event t = e}) + 1"
proof -
  have eq: "{t \<in> insert x T. task_event t = e} = insert x {t \<in> T. task_event t = e}"
    using assms(3) by blast
  show ?thesis unfolding eq using assms by simp
qed

lemma keep_value_counter:
  "waitingHandlers (events (keep_value m e v s) e) =
     waitingHandlers (events s e) + (if is_generator v then 1 else 0)"
  "tasks (mgrs (keep_value m e v s) m) =
     (if is_generator v then insert (Task2 e (the_gen v)) (tasks (mgrs s m)) else tasks (mgrs s m))"
  by (simp_all add: keep_value_def Let_def)

lemma keep_value_keeps_equality:
  assumes "finite (tasks (mgrs s m))" "waitingHandlers (events s e) = task_count s m e"
    and "is_generator v \<longrightarrow> Task2 e (the_gen v) \<notin> tasks (mgrs s m)"
  shows "waitingHandlers (events (keep_value m e v s) e) = task_count (keep_value m e v s) m e"
proof (cases "is_generator v")
  case True
  with assms(3) have n: "Task2 e (the_gen v) \<notin> tasks (mgrs s m)" by blast
  have "task_count (keep_value m e v s) m e = task_count s m e + 1"
    unfolding task_count_def keep_value_counter (2) using True
    by (simp only: if_True task_count_insert [OF assms(1) n] task_event.simps)
  with True assms(2) show ?thesis by (simp add: keep_value_counter (1))
next
  case False
  with assms(2) show ?thesis by (simp add: keep_value_counter task_count_def)
qed

lemma processTask_value:
  assumes "fst (next_step env t (world s)) = Yielded v" "\<not> is_generator v"
  shows "fst (processTask env (Suc d) m e t par s) = None"
    and "waitingHandlers (events (snd (processTask env (Suc d) m e t par s)) e) =
           waitingHandlers (events s e)"
    and "tasks (mgrs (snd (processTask env (Suc d) m e t par s)) m) = tasks (mgrs s m)"
  using assms by (simp_all add: Let_def)

lemma task_exhausted_counter:
  assumes "e < next_event s"
  shows "waitingHandlers (events (task_exhausted env m e t None s) e) = waitingHandlers (events s e) - 1"
    and "tasks (mgrs (task_exhausted env m e t None s) m) = tasks (mgrs s m) - {Task2 e t}"
  using assms by (simp_all add: task_exhausted_def Let_def)

lemma processTask_exhausted:
  assumes "fst (next_step env t (world s)) = Exhausted" "e < next_event s"
  shows "fst (processTask env (Suc d) m e t None s) = None"
    and "waitingHandlers (events (snd (processTask env (Suc d) m e t None s)) e) =
           waitingHandlers (events s e) - 1"
    and "tasks (mgrs (snd (processTask env (Suc d) m e t None s)) m) =
           tasks (mgrs s m) - {Task2 e t}"
  using assms by (simp_all add: Let_def task_exhausted_counter)


lemma processTask_nested:
  assumes "fst (next_step env t (world s)) = Yielded (PGen c)"
    and "fst (next_step env c (snd (next_step env t (world s)))) = Yielded v"
    and "\<not> is_generator v"
  shows "fst (processTask env (Suc (Suc d)) m e t par s) = None"
    and "waitingHandlers (events (snd (processTask env (Suc (Suc d)) m e t par s)) e) =
           waitingHandlers (events s e) + 1"
    and "tasks (mgrs (snd (processTask env (Suc (Suc d)) m e t par s)) m) =
           insert (Task3 e c t) (tasks (mgrs s m)) - {Task2 e t}"
proof -
  define s4 where "s4 = unregisterTask m (Task2 e t) (registerTask m (Task3 e c t)
      (upd_event e (\<lambda>ev. ev\<lparr>waitingHandlers := waitingHandlers ev + 1\<rparr>)
         (s\<lparr>world := snd (next_step env t (world s)), trace := trace s @ [Stepped t]\<rparr>)))"
  have w: "world s4 = snd (next_step env t (world s))"
    and h: "waitingHandlers (events s4 e) = waitingHandlers (events s e) + 1"
    and k: "tasks (mgrs s4 m) = insert (Task3 e c t) (tasks (mgrs s m)) - {Task2 e t}"
    by (simp_all add: s4_def)
  note r = processTask_value [of env c s4 v d m e None, unfolded w, OF assms(2) assms(3)]
  have eq: "processTask env (Suc (Suc d)) m e t par s = (None, snd (processTask env (Suc d) m e c None s4))"
    using assms(1) r(1)
    by (cases "processTask env (Suc d) m e c None s4")
       (simp add: processTask.simps(2) [of env "Suc d"] Let_def s4_def del: processTask.simps)
  show "fst (processTask env (Suc (Suc d)) m e t par s) = None"
    and "waitingHandlers (events (snd (processTask env (Suc (Suc d)) m e t par s)) e) =
           waitingHandlers (events s e) + 1"
    and "tasks (mgrs (snd (processTask env (Suc (Suc d)) m e t par s)) m) =
           insert (Task3 e c t) (tasks (mgrs s m)) - {Task2 e t}"
    unfolding eq using r h k by simp_all
qed


lemma invoke_counter:
  assumes "e < next_event s"
  shows "waitingHandlers (events (snd (snd (snd (invoke env m e eargs ekwargs h error s)))) e) =
           waitingHandlers (events s e)"
    and "tasks (mgrs (snd (snd (snd (invoke env m e eargs ekwargs h error s)))) n) = tasks (mgrs s n)"
proof -
  have "waitingHandlers (events (snd (snd (snd (invoke env m e eargs ekwargs h error s)))) e) =
           waitingHandlers (events s e)
      \<and> tasks (mgrs (snd (snd (snd (invoke env m e eargs ekwargs h error s)))) n) = tasks (mgrs s n)"
  proof (cases "fst (call env h (if h_event h then Some e else None) eargs ekwargs (world s))")
    case (Returned v)
    then show ?thesis by (simp add: invoke_returned)
  next
    case (Raised x)
    show ?thesis
    proof (cases "host_fatal x")
      case True
      with Raised show ?thesis by (simp add: invoke_fatal)
    next
      case False
      show ?thesis
        unfolding invoke_caught_state [OF Raised False] using assms by simp
    qed
  qed
  then show "waitingHandlers (events (snd (snd (snd (invoke env m e eargs ekwargs h error s)))) e) =
           waitingHandlers (events s e)"
    and "tasks (mgrs (snd (snd (snd (invoke env m e eargs ekwargs h error s)))) n) = tasks (mgrs s n)"
    by blast+
qed


lemma resolve_counter:
  assumes "resolve env m e channels s = Inr (hs, s1)"
  shows "waitingHandlers (events s1 e') = waitingHandlers (events s e')"
    and "tasks (mgrs s1 n) = tasks (mgrs s n)"
  using assms
  by (auto simp: resolve_def Let_def split: option.splits sum.splits if_splits)


lemma nest_env_simps [simp]:
  "next_step nest_env 3 w = (Yielded (PGen 4), w)"
  "next_step nest_env 4 w = (Yielded PNone, w)"
  "next_step idle_env g w = (Exhausted, w)"
  by (simp_all add: nest_env_def idle_env_def)

lemma nest_state_simps [simp]:
  "tasks (mgrs nest_state 0) = {Task2 0 3}" "waitingHandlers (events nest_state 0) = 1"
  "next_event nest_state = 1"
  by (simp_all add: nest_state_def)

lemma nest_count [simp]: "task_count nest_state 0 0 = 1"
proof -
  have "{t \<in> {Task2 0 3}. task_event t = 0} = {Task2 0 3}" by auto
  then show ?thesis by (simp add: task_count_def)
qed



end
